theory Spec2Isabelle
  imports Main "HOL-Library.Sublist"
begin

section \<open>Paths: the functions of Node's POSIX \<open>path\<close> module used by the generator\<close>

text \<open>
  \<open>index.js\<close> calls \<open>path.normalize\<close>, \<open>path.join\<close> and \<open>path.dirname\<close>.
  They are modelled on strings, on the POSIX flavour: the separator is \<open>/\<close>.
  A path is cut into its segments at every separator; \<open>a//b\<close> has an empty segment.
\<close>

fun split_sep :: "string \<Rightarrow> string list" where
  "split_sep [] = [[]]"
| "split_sep (c # cs) =
     (if c = CHR ''/'' then [] # split_sep cs
      else (case split_sep cs of [] \<Rightarrow> [[c]] | s # ss \<Rightarrow> (c # s) # ss))"

fun join_sep :: "string list \<Rightarrow> string" where
  "join_sep [] = []"
| "join_sep [s] = s"
| "join_sep (s # t # ss) = s @ CHR ''/'' # join_sep (t # ss)"

text \<open>
  \<open>normalizeString\<close> walks the segments from left to right and keeps the result so far in
  \<open>res\<close> (newest segment first): an empty segment and \<open>.\<close> are dropped, \<open>..\<close> removes the
  segment before it, and a \<open>..\<close> that has nothing to remove is kept only when the path is
  relative (\<open>allowAboveRoot\<close>).
\<close>

fun normalizeString :: "bool \<Rightarrow> string list \<Rightarrow> string list \<Rightarrow> string list" where
  "normalizeString allowAboveRoot res [] = rev res"
| "normalizeString allowAboveRoot res (s # ss) =
     (if s = [] \<or> s = ''.'' then normalizeString allowAboveRoot res ss
      else if s = ''..'' then
        (case res of
           [] \<Rightarrow> normalizeString allowAboveRoot (if allowAboveRoot then [''..''] else []) ss
         | t # ts \<Rightarrow>
             if t = ''..''
             then normalizeString allowAboveRoot (if allowAboveRoot then ''..'' # res else res) ss
             else normalizeString allowAboveRoot ts ss)
      else normalizeString allowAboveRoot (s # res) ss)"

definition normalize :: "string \<Rightarrow> string" where
  "normalize p =
     (if p = [] then ''.''
      else
        let isAbsolute = (hd p = CHR ''/'');
            trailingSeparator = (last p = CHR ''/'');
            q = join_sep (normalizeString (\<not> isAbsolute) [] (split_sep p))
        in if q = [] then (if isAbsolute then ''/'' else if trailingSeparator then ''./'' else ''.'')
           else (if isAbsolute then ''/'' else []) @ q @ (if trailingSeparator then ''/'' else []))"

text \<open>\<open>path.join(a, b)\<close>: the non-empty arguments joined by a separator, then normalized.\<close>

definition join :: "string \<Rightarrow> string \<Rightarrow> string" where
  "join a b =
     (let joined = (if a = [] then b else if b = [] then a else a @ CHR ''/'' # b)
      in if joined = [] then ''.'' else normalize joined)"

text \<open>
  \<open>path.dirname\<close> scans from the right, from the last character down to index 1: it skips the
  trailing separators, then the last segment, and cuts the path at the separator it meets.
\<close>

definition dirname :: "string \<Rightarrow> string" where
  "dirname p =
     (if p = [] then ''.''
      else
        let hasRoot = (hd p = CHR ''/'');
            r = dropWhile (\<lambda>c. c \<noteq> CHR ''/'') (dropWhile (\<lambda>c. c = CHR ''/'') (rev (tl p)))
        in if r = [] then (if hasRoot then ''/'' else ''.'')
           else if hasRoot \<and> length r = 1 then ''//''
           else take (length r) p)"

text \<open>\<open>s.includes('..')\<close>: two consecutive dots anywhere in the string.\<close>

fun includes_dotdot :: "string \<Rightarrow> bool" where
  "includes_dotdot (a # b # cs) = ((a = CHR ''.'' \<and> b = CHR ''.'') \<or> includes_dotdot (b # cs))"
| "includes_dotdot _ = False"

section \<open>Errors\<close>

text \<open>
  Every \<open>throw\<close> and rejected promise of the source is a value of this type. The two
  wrappers are the messages \<open>Directory creation failed: ...\<close> and \<open>File write failed: ...\<close>
  around the message of the error that was caught. The \<open>E...\<close> constructors are the errors
  of the \<open>fs\<close> calls.
\<close>

datatype error =
    PathTraversalDetected
  | ENOENT | ENOTDIR | EISDIR | EEXIST | EACCES | ENOTEMPTY | EBUSY
  | DirectoryCreationFailed error
  | FileWriteFailed error
  | InstallationTimeout nat
  | PackageInstallationFailed string
  | SpawnError

section \<open>Validator\<close>

definition sanitizePath :: "string \<Rightarrow> error + string" where
  "sanitizePath userPath =
     (let normalized = normalize userPath
      in if includes_dotdot normalized then Inl PathTraversalDetected else Inr normalized)"

section \<open>The disk, the logger and the state of the process\<close>

text \<open>
  The content of a generated file is the template that produced it; the text itself plays
  no part in the transaction.
\<close>

datatype content =
    AppJs | ServerJs | PackageJson | Env | Gitignore | Readme | Routes | DatabaseConfig
  | AuthMiddleware | IndexView | View404 | HeaderView | FooterView | IndexHtml | CSS | JS
  | Foreign string

datatype node = File content | Dir

datatype level = ERROR | WARN | INFO | SUCCESS | DEBUG

datatype message =
    CreatedDirectory string
  | FailedToCreateDirectory string
  | CreatedFile string
  | FailedToWriteFile string
  | RollingBack
  | DeletedFile string
  | FailedToDeleteFile string
  | DeletedDirectory string
  | FailedToDeleteDirectory string
  | RollbackCompletedWithErrors nat
  | RollbackCompletedSuccessfully
  | Installing "string list"
  | SuccessfullyInstalled "string list"
  | InstallationFailedWithCode int
  | InstallationProcessError
  | StartingProjectGeneration
  | ProjectGenerationFailed
  | CreatedDirectories nat
  | GeneratingProjectFiles
  | GeneratedFiles nat
  | InstallingDependencies
  | InstallingDevDependencies
  | RunningPostGenerationTasks
  | InitializedGitRepository
  | CouldNotInitializeGitRepository
  | ProjectGenerated

text \<open>
  The disk is an association list from absolute paths, as lists of segments, to nodes; the
  root directory \<open>[]\<close> always exists. \<open>denied\<close> lists the paths at which the operating
  system refuses to create, write or delete (permission denied). \<open>createdFiles\<close> and
  \<open>createdDirs\<close> are the two fields of \<open>FileSystemManager\<close>, \<open>installedPackages\<close> the
  field of \<open>PackageManager\<close>. \<open>children\<close> records every \<open>spawn('npm', args)\<close>: the
  arguments, and whether that process was still running when the call returned.
\<close>

record state =
  tree :: "(string list \<times> node) list"
  cwd :: string
  denied :: "string list list"
  createdFiles :: "string list"
  createdDirs :: "string list"
  installedPackages :: "string list"
  children :: "(string list \<times> bool) list"
  logs :: "(level \<times> message) list"

definition logger :: "level \<Rightarrow> message \<Rightarrow> state \<Rightarrow> state" where
  "logger l m s = s\<lparr>logs := logs s @ [(l, m)]\<rparr>"

subsection \<open>The calls of the \<open>fs\<close> module\<close>

definition resolve :: "string \<Rightarrow> string \<Rightarrow> string list" where
  "resolve wd p =
     normalizeString False []
       (split_sep (if p \<noteq> [] \<and> hd p = CHR ''/'' then p else wd @ CHR ''/'' # p))"

definition lookup :: "(string list \<times> node) list \<Rightarrow> string list \<Rightarrow> node option" where
  "lookup t segs = (if segs = [] then Some Dir else map_of t segs)"

text \<open>What is found at a path; a path with a trailing separator names a directory only.\<close>

definition lstat :: "state \<Rightarrow> string \<Rightarrow> error + node" where
  "lstat s p =
     (if p = [] then Inl ENOENT
      else
        (case lookup (tree s) (resolve (cwd s) p) of
           None \<Rightarrow> Inl ENOENT
         | Some Dir \<Rightarrow> Inr Dir
         | Some (File c) \<Rightarrow> if last p = CHR ''/'' then Inl ENOTDIR else Inr (File c)))"

definition existsSync :: "state \<Rightarrow> string \<Rightarrow> bool" where
  "existsSync s p = (case lstat s p of Inl e \<Rightarrow> False | Inr n \<Rightarrow> True)"

text \<open>The entries of a directory: the paths one segment longer.\<close>

definition entries :: "(string list \<times> node) list \<Rightarrow> string list \<Rightarrow> string list list" where
  "entries t segs = filter (\<lambda>q. q \<noteq> [] \<and> butlast q = segs) (map fst t)"

text \<open>
  \<open>mkdirSync\<close> with \<open>recursive: true\<close> creates every missing directory on the way, from the
  root down; a directory it created stays when a later one fails. A regular file on the way
  is \<open>ENOTDIR\<close>; a regular file at the path itself is \<open>EEXIST\<close>, or \<open>ENOTDIR\<close> when the
  path is written with a trailing separator.
\<close>

fun mkdirs :: "string list list \<Rightarrow> string list list \<Rightarrow> (string list \<times> node) list
    \<Rightarrow> error option \<times> (string list \<times> node) list" where
  "mkdirs dn [] t = (None, t)"
| "mkdirs dn (q # qs) t =
     (case lookup t q of
        Some Dir \<Rightarrow> mkdirs dn qs t
      | Some (File c) \<Rightarrow> (Some (if qs = [] then EEXIST else ENOTDIR), t)
      | None \<Rightarrow> if q \<in> set dn then (Some EACCES, t) else mkdirs dn qs ((q, Dir) # t))"

definition prefixes :: "string list \<Rightarrow> string list list" where
  "prefixes segs = map (\<lambda>n. take n segs) [1 ..< Suc (length segs)]"

definition mkdirSync :: "string \<Rightarrow> bool \<Rightarrow> state \<Rightarrow> error option \<times> state" where
  "mkdirSync p recursive s =
     (let segs = resolve (cwd s) p in
      if p = [] then (Some ENOENT, s)
      else if recursive then
        (case mkdirs (denied s) (prefixes segs) (tree s) of
           (r, t) \<Rightarrow>
             (if r = Some EEXIST \<and> last p = CHR ''/'' then Some ENOTDIR else r, s\<lparr>tree := t\<rparr>))
      else
        (case lookup (tree s) (butlast segs) of
           None \<Rightarrow> (Some ENOENT, s)
         | Some (File c) \<Rightarrow> (Some ENOTDIR, s)
         | Some Dir \<Rightarrow>
             (case lookup (tree s) segs of
                Some n \<Rightarrow> (Some EEXIST, s)
              | None \<Rightarrow>
                  if segs \<in> set (denied s) then (Some EACCES, s)
                  else (None, s\<lparr>tree := (segs, Dir) # tree s\<rparr>))))"

text \<open>\<open>writeFileSync\<close> with flag \<open>w\<close>: creates the file or replaces its content.\<close>

definition writeFileSync :: "string \<Rightarrow> content \<Rightarrow> state \<Rightarrow> error option \<times> state" where
  "writeFileSync p c s =
     (let segs = resolve (cwd s) p in
      if p = [] then (Some ENOENT, s)
      else if segs = [] \<or> last p = CHR ''/'' then (Some EISDIR, s)
      else
        (case lookup (tree s) (butlast segs) of
           None \<Rightarrow> (Some ENOENT, s)
         | Some (File c') \<Rightarrow> (Some ENOTDIR, s)
         | Some Dir \<Rightarrow>
             (case lookup (tree s) segs of
                Some Dir \<Rightarrow> (Some EISDIR, s)
              | _ \<Rightarrow>
                  if segs \<in> set (denied s) then (Some EACCES, s)
                  else (None, s\<lparr>tree := (segs, File c) # filter (\<lambda>e. fst e \<noteq> segs) (tree s)\<rparr>))))"

definition unlinkSync :: "string \<Rightarrow> state \<Rightarrow> error option \<times> state" where
  "unlinkSync p s =
     (case lstat s p of
        Inl e \<Rightarrow> (Some e, s)
      | Inr Dir \<Rightarrow> (Some EISDIR, s)
      | Inr (File c) \<Rightarrow>
          if resolve (cwd s) p \<in> set (denied s) then (Some EACCES, s)
          else (None, s\<lparr>tree := filter (\<lambda>e. fst e \<noteq> resolve (cwd s) p) (tree s)\<rparr>))"

definition readdirSync :: "string \<Rightarrow> state \<Rightarrow> error + string list list" where
  "readdirSync p s =
     (case lstat s p of
        Inl e \<Rightarrow> Inl e
      | Inr (File c) \<Rightarrow> Inl ENOTDIR
      | Inr Dir \<Rightarrow> Inr (entries (tree s) (resolve (cwd s) p)))"

definition rmdirSync :: "string \<Rightarrow> state \<Rightarrow> error option \<times> state" where
  "rmdirSync p s =
     (case lstat s p of
        Inl e \<Rightarrow> (Some e, s)
      | Inr (File c) \<Rightarrow> (Some ENOTDIR, s)
      | Inr Dir \<Rightarrow>
          if resolve (cwd s) p = [] then (Some EBUSY, s)
          else if entries (tree s) (resolve (cwd s) p) \<noteq> [] then (Some ENOTEMPTY, s)
          else if resolve (cwd s) p \<in> set (denied s) then (Some EACCES, s)
          else (None, s\<lparr>tree := filter (\<lambda>e. fst e \<noteq> resolve (cwd s) p) (tree s)\<rparr>))"

section \<open>FileSystemManager\<close>

text \<open>The constructor: both ledgers start empty.\<close>

definition newFileSystemManager :: "state \<Rightarrow> state" where
  "newFileSystemManager s = s\<lparr>createdFiles := [], createdDirs := []\<rparr>"

definition createDirectory :: "string \<Rightarrow> bool \<Rightarrow> state \<Rightarrow> (error + bool) \<times> state" where
  "createDirectory dirPath recursive s =
     (case sanitizePath dirPath of
        Inl e \<Rightarrow>
          (Inl (DirectoryCreationFailed e), logger ERROR (FailedToCreateDirectory dirPath) s)
      | Inr sanitized \<Rightarrow>
          if \<not> existsSync s sanitized then
            (case mkdirSync sanitized recursive s of
               (Some e, s1) \<Rightarrow>
                 (Inl (DirectoryCreationFailed e),
                  logger ERROR (FailedToCreateDirectory dirPath) s1)
             | (None, s1) \<Rightarrow>
                 (Inr True,
                  logger DEBUG (CreatedDirectory sanitized)
                    (s1\<lparr>createdDirs := createdDirs s1 @ [sanitized]\<rparr>)))
          else (Inr True, s))"

text \<open>
  \<open>writeFile(filePath, content)\<close>, as every caller in the repository calls it: with no
  options, so the flag is \<open>w\<close>. An error of the inner \<open>createDirectory\<close> is caught by the
  handler of \<open>writeFile\<close> and wrapped a second time.
\<close>

definition writeFile :: "string \<Rightarrow> content \<Rightarrow> state \<Rightarrow> (error + bool) \<times> state" where
  "writeFile filePath c s =
     (case sanitizePath filePath of
        Inl e \<Rightarrow> (Inl (FileWriteFailed e), logger ERROR (FailedToWriteFile filePath) s)
      | Inr sanitized \<Rightarrow>
          (case (if \<not> existsSync s (dirname sanitized)
                 then createDirectory (dirname sanitized) True s else (Inr True, s)) of
             (Inl e, s1) \<Rightarrow>
               (Inl (FileWriteFailed e), logger ERROR (FailedToWriteFile filePath) s1)
           | (Inr b, s1) \<Rightarrow>
               (case writeFileSync sanitized c s1 of
                  (Some e, s2) \<Rightarrow>
                    (Inl (FileWriteFailed e), logger ERROR (FailedToWriteFile filePath) s2)
                | (None, s2) \<Rightarrow>
                    (Inr True,
                     logger DEBUG (CreatedFile sanitized)
                       (s2\<lparr>createdFiles := createdFiles s2 @ [sanitized]\<rparr>)))))"

text \<open>
  The two loops of \<open>rollback\<close>, each over an array already reversed; \<open>n\<close> is
  \<open>rollbackErrors\<close>. The body of each \<open>try\<close> is one step; an error thrown inside is caught,
  counted and logged, and the loop goes on.
\<close>

definition rollbackFile :: "string \<Rightarrow> nat \<times> state \<Rightarrow> nat \<times> state" where
  "rollbackFile file ns =
     (case ns of (n, s) \<Rightarrow>
        if existsSync s file then
          (case unlinkSync file s of
             (None, s1) \<Rightarrow> (n, logger DEBUG (DeletedFile file) s1)
           | (Some e, s1) \<Rightarrow> (Suc n, logger ERROR (FailedToDeleteFile file) s1))
        else (n, s))"

definition rollbackDir :: "string \<Rightarrow> nat \<times> state \<Rightarrow> nat \<times> state" where
  "rollbackDir dir ns =
     (case ns of (n, s) \<Rightarrow>
        if existsSync s dir then
          (case readdirSync dir s of
             Inl e \<Rightarrow> (Suc n, logger ERROR (FailedToDeleteDirectory dir) s)
           | Inr names \<Rightarrow>
               if length names = 0 then
                 (case rmdirSync dir s of
                    (None, s1) \<Rightarrow> (n, logger DEBUG (DeletedDirectory dir) s1)
                  | (Some e, s1) \<Rightarrow> (Suc n, logger ERROR (FailedToDeleteDirectory dir) s1))
               else (n, s))
        else (n, s))"

fun rollbackFiles :: "string list \<Rightarrow> nat \<times> state \<Rightarrow> nat \<times> state" where
  "rollbackFiles [] ns = ns"
| "rollbackFiles (file # files) ns = rollbackFiles files (rollbackFile file ns)"

fun rollbackDirs :: "string list \<Rightarrow> nat \<times> state \<Rightarrow> nat \<times> state" where
  "rollbackDirs [] ns = ns"
| "rollbackDirs (dir # dirs) ns = rollbackDirs dirs (rollbackDir dir ns)"

text \<open>
  \<open>Array.prototype.reverse\<close> reverses in place: after \<open>rollback\<close> both ledgers hold their
  entries in reverse order. \<open>rollbackSweep\<close> is \<open>rollback\<close> up to its last statement, with
  the value of \<open>rollbackErrors\<close>; \<open>rollback\<close> itself logs that value and returns nothing.
\<close>

definition rollbackSweep :: "state \<Rightarrow> nat \<times> state" where
  "rollbackSweep s =
     (let s0 = logger WARN RollingBack s;
          s1 = s0\<lparr>createdFiles := rev (createdFiles s0)\<rparr>;
          ns2 = rollbackFiles (createdFiles s1) (0, s1);
          s3 = (snd ns2)\<lparr>createdDirs := rev (createdDirs (snd ns2))\<rparr>
      in rollbackDirs (createdDirs s3) (fst ns2, s3))"

definition rollback :: "state \<Rightarrow> state" where
  "rollback s =
     (case rollbackSweep s of (rollbackErrors, s1) \<Rightarrow>
        if rollbackErrors > 0 then logger WARN (RollbackCompletedWithErrors rollbackErrors) s1
        else logger SUCCESS RollbackCompletedSuccessfully s1)"

definition getCreatedStructure :: "state \<Rightarrow> string list \<times> string list \<times> nat \<times> nat" where
  "getCreatedStructure s =
     (createdFiles s, createdDirs s, length (createdFiles s), length (createdDirs s))"

section \<open>PackageManager\<close>

definition TIMEOUT :: nat where
  "TIMEOUT = 300000"

text \<open>
  One call of \<open>installDependencies\<close> spawns one \<open>npm\<close> process and returns a promise. What
  the process does is a script of the events it emits, in order; a script that ends without
  \<open>Close\<close> or \<open>ChildError\<close> is a process that has not exited when the timer fires.
\<close>

datatype child_event = StdoutData string | StderrData string | Close int | ChildError

text \<open>
  The local variables of the call, and the process: \<open>childRunning\<close> is set by \<open>spawn\<close> and
  cleared by the operating system when the process ends (which is what \<open>close\<close> reports) or
  could not be started (\<open>error\<close>).
\<close>

record install =
  packages :: "string list"
  stdout :: string
  stderr :: string
  timerArmed :: bool
  childRunning :: bool

text \<open>
  The handlers registered on the child. Each returns \<open>Some r\<close> when it settles the promise
  with \<open>r\<close>, which is when the awaiting caller resumes.
\<close>

fun onChildEvent :: "child_event \<Rightarrow> install \<Rightarrow> state \<Rightarrow> (error + unit) option \<times> install \<times> state" where
  "onChildEvent (StdoutData d) i s = (None, i\<lparr>stdout := stdout i @ d\<rparr>, s)"
| "onChildEvent (StderrData d) i s = (None, i\<lparr>stderr := stderr i @ d\<rparr>, s)"
| "onChildEvent (Close code) i s =
     (if code = 0 then
        (Some (Inr ()), i\<lparr>timerArmed := False, childRunning := False\<rparr>,
         logger SUCCESS (SuccessfullyInstalled (packages i))
           (s\<lparr>installedPackages := installedPackages s @ packages i\<rparr>))
      else
        (Some (Inl (PackageInstallationFailed (if stderr i \<noteq> [] then stderr i else stdout i))),
         i\<lparr>timerArmed := False, childRunning := False\<rparr>,
         logger ERROR (InstallationFailedWithCode code) s))"
| "onChildEvent ChildError i s =
     (Some (Inl SpawnError), i\<lparr>timerArmed := False, childRunning := False\<rparr>,
      logger ERROR InstallationProcessError s)"

text \<open>The callback of \<open>setTimeout\<close>: it rejects the promise, and does nothing else.\<close>

definition onTimeout :: "install \<Rightarrow> state \<Rightarrow> (error + unit) \<times> install \<times> state" where
  "onTimeout i s = (Inl (InstallationTimeout (TIMEOUT div 1000)), i\<lparr>timerArmed := False\<rparr>, s)"

text \<open>
  The call from \<open>spawn\<close> to the moment the promise settles: the events of the script are
  handled in order until a handler settles the promise, and the timer fires when the script
  ends first. The caller resumes there, so the function ends there too. In the source the
  handlers stay registered on the child: an event that the process emits after that moment
  would still run its handler, in a later turn of the event loop, and write to the log and
  to \<open>installedPackages\<close>. Events after the settling one are not part of the model.
\<close>

fun awaitInstall :: "child_event list \<Rightarrow> install \<Rightarrow> state \<Rightarrow> (error + unit) \<times> install \<times> state" where
  "awaitInstall [] i s = onTimeout i s"
| "awaitInstall (e # es) i s =
     (case onChildEvent e i s of
        (Some r, i1, s1) \<Rightarrow> (r, i1, s1)
      | (None, i1, s1) \<Rightarrow> awaitInstall es i1 s1)"

text \<open>The argument \<open>dependencies\<close> is one package name or an array of them.\<close>

datatype dependencies = One string | Many "string list"

definition packagesOf :: "dependencies \<Rightarrow> string list" where
  "packagesOf deps = (case deps of Many l \<Rightarrow> l | One d \<Rightarrow> [d])"

text \<open>\<open>['install', devFlag, ...packages].filter(Boolean)\<close>: the empty strings are dropped.\<close>

definition spawnArgs :: "dependencies \<Rightarrow> bool \<Rightarrow> string list" where
  "spawnArgs deps dev =
     filter (\<lambda>a. a \<noteq> []) ([''install'', (if dev then ''--save-dev'' else [])] @ packagesOf deps)"

text \<open>
  \<open>npm\<close> is the package manager as the caller sees it: for a working directory and the
  arguments of \<open>spawn\<close>, the script of the process. It writes nothing to the disk of the
  model.
\<close>

definition pmInstallDependencies ::
  "(string \<Rightarrow> string list \<Rightarrow> child_event list) \<Rightarrow> string \<Rightarrow> dependencies \<Rightarrow> bool \<Rightarrow> state
    \<Rightarrow> (error + unit) \<times> state" where
  "pmInstallDependencies npm projectDir deps dev s =
     (let s0 = logger INFO (Installing (packagesOf deps)) s;
          i0 = \<lparr>packages = packagesOf deps, stdout = [], stderr = [],
                timerArmed = True, childRunning = True\<rparr>
      in case awaitInstall (npm projectDir (spawnArgs deps dev)) i0 s0 of
           (r, i1, s1) \<Rightarrow>
             (r, s1\<lparr>children := children s1 @ [(spawnArgs deps dev, childRunning i1)]\<rparr>))"

text \<open>Whether an event says that the process is gone.\<close>

fun exits :: "child_event \<Rightarrow> bool" where
  "exits (Close code) = True"
| "exits ChildError = True"
| "exits (StdoutData d) = False"
| "exits (StderrData d) = False"

section \<open>ProjectGenerator\<close>

record config =
  projectName :: string
  useEjs :: string
  useDB :: string
  port :: string
  authentication :: bool
  linter :: bool
  initGit :: bool

definition rootDirOf :: "config \<Rightarrow> state \<Rightarrow> string" where
  "rootDirOf cfg s = join (cwd s) (projectName cfg)"

definition structureDirs :: "config \<Rightarrow> string list" where
  "structureDirs cfg =
     [''src/services'', ''src/routes'', ''src/middleware'', ''src/utils'', ''src/config'',
      ''public/css'', ''public/js'', ''public/images'', ''public/uploads'', ''tests'', ''logs'']
     @ (if useEjs cfg = ''EJS (Dynamic)''
        then [''views/components'', ''views/pages'', ''views/layouts''] else [])"

fun createDirectories :: "string \<Rightarrow> string list \<Rightarrow> state \<Rightarrow> (error + unit) \<times> state" where
  "createDirectories rootDir [] s = (Inr (), s)"
| "createDirectories rootDir (dir # dirs) s =
     (case createDirectory (join rootDir dir) True s of
        (Inl e, s1) \<Rightarrow> (Inl e, s1)
      | (Inr b, s1) \<Rightarrow> createDirectories rootDir dirs s1)"

definition createStructure :: "config \<Rightarrow> state \<Rightarrow> (error + unit) \<times> state" where
  "createStructure cfg s =
     (case createDirectories (rootDirOf cfg s) (structureDirs cfg) s of
        (Inl e, s1) \<Rightarrow> (Inl e, s1)
      | (Inr u, s1) \<Rightarrow> (Inr (), logger SUCCESS (CreatedDirectories (length (structureDirs cfg))) s1))"

text \<open>The keys of the object built by \<open>getFileTemplates\<close>, in insertion order.\<close>

definition getFileTemplates :: "config \<Rightarrow> state \<Rightarrow> (string \<times> content) list" where
  "getFileTemplates cfg s =
     (let rootDir = rootDirOf cfg s in
      [(join rootDir ''src/app.js'', AppJs),
       (join rootDir ''src/server.js'', ServerJs),
       (join rootDir ''package.json'', PackageJson),
       (join rootDir ''.env'', Env),
       (join rootDir ''.env.example'', Env),
       (join rootDir ''.gitignore'', Gitignore),
       (join rootDir ''README.md'', Readme),
       (join rootDir ''src/routes/index.js'', Routes)]
      @ (if useDB cfg \<noteq> ''None'' then [(join rootDir ''src/config/database.js'', DatabaseConfig)] else [])
      @ (if authentication cfg then [(join rootDir ''src/middleware/auth.js'', AuthMiddleware)] else [])
      @ (if useEjs cfg = ''EJS (Dynamic)''
         then [(join rootDir ''views/pages/index.ejs'', IndexView),
               (join rootDir ''views/pages/404.ejs'', View404),
               (join rootDir ''views/layouts/header.ejs'', HeaderView),
               (join rootDir ''views/layouts/footer.ejs'', FooterView)]
         else [(join rootDir ''public/index.html'', IndexHtml)])
      @ [(join rootDir ''public/css/style.css'', CSS),
         (join rootDir ''public/js/main.js'', JS)])"

fun writeFiles :: "(string \<times> content) list \<Rightarrow> nat \<Rightarrow> state \<Rightarrow> (error + nat) \<times> state" where
  "writeFiles [] completed s = (Inr completed, s)"
| "writeFiles ((filePath, c) # files) completed s =
     (case writeFile filePath c s of
        (Inl e, s1) \<Rightarrow> (Inl e, s1)
      | (Inr b, s1) \<Rightarrow> writeFiles files (Suc completed) s1)"

definition generateFiles :: "config \<Rightarrow> state \<Rightarrow> (error + unit) \<times> state" where
  "generateFiles cfg s =
     (let s0 = logger INFO GeneratingProjectFiles s in
      case writeFiles (getFileTemplates cfg s0) 0 s0 of
        (Inl e, s1) \<Rightarrow> (Inl e, s1)
      | (Inr completed, s1) \<Rightarrow> (Inr (), logger SUCCESS (GeneratedFiles completed) s1))"

text \<open>
  The calls that \<open>ProjectGenerator.installDependencies\<close> makes, in order, as pairs of the
  arguments \<open>dependencies\<close> and \<open>dev\<close>. The first call passes the object
  \<open>{ flags: '--no-bin-links' }\<close> as \<open>dev\<close>, which is truthy; the fourth argument of the
  \<open>nodemon\<close> call is ignored by the callee.
\<close>

definition runtimeCalls :: "config \<Rightarrow> (dependencies \<times> bool) list" where
  "runtimeCalls cfg =
     [(Many [''express'', ''cors'', ''dotenv'', ''helmet'', ''morgan''], True)]
     @ (if useEjs cfg = ''EJS (Dynamic)'' then [(One ''ejs'', False)] else [])
     @ (if useDB cfg = ''MySQL'' then [(One ''mysql2'', False)]
        else if useDB cfg = ''PostgreSQL'' then [(One ''pg'', False)]
        else if useDB cfg = ''MongoDB'' then [(One ''mongodb'', False)] else [])
     @ (if authentication cfg then [(One ''jsonwebtoken'', False)] else [])"

definition devCalls :: "config \<Rightarrow> (dependencies \<times> bool) list" where
  "devCalls cfg =
     [(One ''nodemon'', True)] @ (if linter cfg then [(One ''eslint prettier'', True)] else [])"

text \<open>Each call is awaited; a rejection leaves the function at once.\<close>

fun installEach ::
  "(string \<Rightarrow> string list \<Rightarrow> child_event list) \<Rightarrow> string \<Rightarrow> (dependencies \<times> bool) list \<Rightarrow> state
    \<Rightarrow> (error + unit) \<times> state" where
  "installEach npm projectDir [] s = (Inr (), s)"
| "installEach npm projectDir ((deps, dev) # calls) s =
     (case pmInstallDependencies npm projectDir deps dev s of
        (Inl e, s1) \<Rightarrow> (Inl e, s1)
      | (Inr u, s1) \<Rightarrow> installEach npm projectDir calls s1)"

definition installDependencies ::
  "(string \<Rightarrow> string list \<Rightarrow> child_event list) \<Rightarrow> config \<Rightarrow> state \<Rightarrow> (error + unit) \<times> state" where
  "installDependencies npm cfg s =
     (case installEach npm (rootDirOf cfg s) (runtimeCalls cfg) (logger INFO InstallingDependencies s) of
        (Inl e, s1) \<Rightarrow> (Inl e, s1)
      | (Inr u, s1) \<Rightarrow>
          installEach npm (rootDirOf cfg s) (devCalls cfg) (logger INFO InstallingDevDependencies s1))"

text \<open>
  \<open>git\<close> tells, for the working directory, whether \<open>execSync('git init')\<close> returns or throws.
\<close>

definition postGeneration :: "(string \<Rightarrow> bool) \<Rightarrow> config \<Rightarrow> state \<Rightarrow> (error + unit) \<times> state" where
  "postGeneration git cfg s =
     (let s0 = logger INFO RunningPostGenerationTasks s in
      if initGit cfg then
        (if git (rootDirOf cfg s0) then (Inr (), logger SUCCESS InitializedGitRepository s0)
         else (Inr (), logger WARN CouldNotInitializeGitRepository s0))
      else (Inr (), s0))"

text \<open>The handler of \<open>generate\<close>: log, roll back, throw the error again.\<close>

definition failGeneration :: "error \<Rightarrow> state \<Rightarrow> (error + bool) \<times> state" where
  "failGeneration e s = (Inl e, rollback (logger ERROR ProjectGenerationFailed s))"

definition generate ::
  "(string \<Rightarrow> string list \<Rightarrow> child_event list) \<Rightarrow> (string \<Rightarrow> bool) \<Rightarrow> config \<Rightarrow> state
    \<Rightarrow> (error + bool) \<times> state" where
  "generate npm git cfg s =
     (case createStructure cfg (logger INFO StartingProjectGeneration s) of
        (Inl e, s1) \<Rightarrow> failGeneration e s1
      | (Inr u1, s1) \<Rightarrow>
          (case generateFiles cfg s1 of
             (Inl e, s2) \<Rightarrow> failGeneration e s2
           | (Inr u2, s2) \<Rightarrow>
               (case installDependencies npm cfg s2 of
                  (Inl e, s3) \<Rightarrow> failGeneration e s3
                | (Inr u3, s3) \<Rightarrow>
                    (case postGeneration git cfg s3 of
                       (Inl e, s4) \<Rightarrow> failGeneration e s4
                     | (Inr u4, s4) \<Rightarrow> (Inr True, logger SUCCESS ProjectGenerated s4)))))"

section \<open>Observations on a run\<close>

text \<open>
  The paths that the log reports as deleted, in the order of the log, and the number of
  its \<open>ERROR\<close> lines.
\<close>

fun deleted :: "(level \<times> message) list \<Rightarrow> string list" where
  "deleted [] = []"
| "deleted ((l, DeletedFile f) # ms) = f # deleted ms"
| "deleted ((l, DeletedDirectory d) # ms) = d # deleted ms"
| "deleted (m # ms) = deleted ms"

definition errorLines :: "(level \<times> message) list \<Rightarrow> nat" where
  "errorLines ms = length (filter (\<lambda>e. fst e = ERROR) ms)"

text \<open>
  \<open>swept ps s s'\<close> relates the state before and after a sweep over the paths \<open>ps\<close>: the
  working directory and the permissions are the same; a node is either untouched or gone,
  and gone only at one of the paths; no surviving node has lost the directory it is in;
  the log has only grown.
\<close>

definition swept :: "string list \<Rightarrow> state \<Rightarrow> state \<Rightarrow> bool" where
  "swept ps s s' =
     (cwd s' = cwd s \<and> denied s' = denied s
      \<and> (\<forall>q. lookup (tree s') q = lookup (tree s) q
             \<or> (lookup (tree s') q = None \<and> q \<in> resolve (cwd s) ` set ps))
      \<and> (\<forall>q. q \<noteq> [] \<and> lookup (tree s') q \<noteq> None \<and> lookup (tree s) (butlast q) = Some Dir
             \<longrightarrow> lookup (tree s') (butlast q) = Some Dir)
      \<and> (\<exists>ms. logs s' = logs s @ ms))"

text \<open>
  The lines that a run from \<open>s\<close> to \<open>s'\<close> has added to the log.
\<close>

definition newLines :: "state \<Rightarrow> state \<Rightarrow> (level \<times> message) list" where
  "newLines s s' = drop (length (logs s)) (logs s')"

text \<open>
  \<open>rollback\<close> up to the start of its second loop: the count and the state after the loop
  over the files.
\<close>

definition afterFiles :: "state \<Rightarrow> nat \<times> state" where
  "afterFiles s =
     (let s0 = logger WARN RollingBack s;
          s1 = s0\<lparr>createdFiles := rev (createdFiles s0)\<rparr>;
          ns2 = rollbackFiles (createdFiles s1) (0, s1)
      in (fst ns2, (snd ns2)\<lparr>createdDirs := rev (createdDirs (snd ns2))\<rparr>))"

text \<open>
  The paths that the log reports as created, in the order of the log: the files of the
  lines \<open>Created file\<close>, the directories of the lines \<open>Created directory\<close>.
\<close>

fun filesLogged :: "(level \<times> message) list \<Rightarrow> string list" where
  "filesLogged [] = []"
| "filesLogged ((l, CreatedFile f) # ms) = f # filesLogged ms"
| "filesLogged (m # ms) = filesLogged ms"

fun dirsLogged :: "(level \<times> message) list \<Rightarrow> string list" where
  "dirsLogged [] = []"
| "dirsLogged ((l, CreatedDirectory d) # ms) = d # dirsLogged ms"
| "dirsLogged (m # ms) = dirsLogged ms"

text \<open>
  \<open>recorded s s'\<close>: from \<open>s\<close> to \<open>s'\<close> the log has only grown, and each ledger of \<open>s'\<close> is
  the ledger of \<open>s\<close> followed by the paths that the added lines report as created, in
  that order and nothing else.
\<close>

definition recorded :: "state \<Rightarrow> state \<Rightarrow> bool" where
  "recorded s s' =
     (logs s' = logs s @ newLines s s'
      \<and> createdFiles s' = createdFiles s @ filesLogged (newLines s s')
      \<and> createdDirs s' = createdDirs s @ dirsLogged (newLines s s'))"

section \<open>Example inputs\<close>

text \<open>
  A fresh process in the working directory \<open>/w\<close>, which exists and is empty, and the minimal
  configuration: static HTML, no database, no optional feature.
\<close>

definition emptyDisk :: state where
  "emptyDisk =
     \<lparr>tree = [([''w''], Dir)], cwd = ''/w'', denied = [], createdFiles = [], createdDirs = [],
      installedPackages = [], children = [], logs = []\<rparr>"

definition demo :: config where
  "demo =
     \<lparr>projectName = ''demo'', useEjs = ''Plain HTML (Static)'', useDB = ''None'', port = ''3000'',
      authentication = False, linter = False, initGit = False\<rparr>"

text \<open>
  A ledger with one file and the directory it is in, and in that directory a file that the
  generator did not write.
\<close>

definition foreignFile :: state where
  "foreignFile =
     \<lparr>tree = [([''w''], Dir), ([''w'', ''d''], Dir), ([''w'', ''d'', ''own.js''], File AppJs),
              ([''w'', ''d'', ''notes.txt''], File (Foreign ''mine''))],
      cwd = ''/w'', denied = [], createdFiles = [''/w/d/own.js''], createdDirs = [''/w/d''],
      installedPackages = [], children = [], logs = []\<rparr>"

text \<open>A ledger of two files; the operating system refuses to delete the first.\<close>

definition lockedFile :: state where
  "lockedFile =
     \<lparr>tree = [([''w''], Dir), ([''w'', ''f''], File AppJs), ([''w'', ''g''], File ServerJs)],
      cwd = ''/w'', denied = [[''w'', ''f'']], createdFiles = [''/w/f'', ''/w/g''],
      createdDirs = [], installedPackages = [], children = [], logs = []\<rparr>"

section \<open>Path sanitization\<close>







lemma normalize_not_Nil: "normalize p \<noteq> []"
  by (auto simp: normalize_def Let_def)




text \<open>
  C10. The path \<open>sub/notes..txt\<close> has no segment \<open>..\<close> and is already normalized, yet
  \<open>sanitizePath\<close> throws the traversal error on it, and so \<open>createDirectory\<close> and \<open>writeFile\<close>
  fail on it in every state, each wrapping that error.
\<close>

theorem C10_over_rejection:
  "''..'' \<notin> set (split_sep ''sub/notes..txt'')
   \<and> normalize ''sub/notes..txt'' = ''sub/notes..txt''
   \<and> sanitizePath ''sub/notes..txt'' = Inl PathTraversalDetected
   \<and> fst (createDirectory ''sub/notes..txt'' recursive s)
       = Inl (DirectoryCreationFailed PathTraversalDetected)
   \<and> fst (writeFile ''sub/notes..txt'' c s) = Inl (FileWriteFailed PathTraversalDetected)"
proof -
  have a: "''..'' \<notin> set (split_sep ''sub/notes..txt'')" by code_simp
  have b: "normalize ''sub/notes..txt'' = ''sub/notes..txt''" by code_simp
  have c: "sanitizePath ''sub/notes..txt'' = Inl PathTraversalDetected" by code_simp
  from c have d: "fst (createDirectory ''sub/notes..txt'' recursive s)
      = Inl (DirectoryCreationFailed PathTraversalDetected)"
    by (simp add: createDirectory_def)
  from c have e: "fst (writeFile ''sub/notes..txt'' c s) = Inl (FileWriteFailed PathTraversalDetected)"
    by (simp add: writeFile_def)
  from a b c d e show ?thesis by blast
qed

section \<open>Rollback\<close>


lemma map_of_filter_key:
  "map_of (filter (\<lambda>e. fst e \<noteq> k) t) q = (if q = k then None else map_of t q)"
  by (induction t) auto

lemma lookup_filter_key:
  "lookup (filter (\<lambda>e. fst e \<noteq> k) t) q = (if q = k \<and> q \<noteq> [] then None else lookup t q)"
  by (simp add: lookup_def map_of_filter_key)

lemma lookup_keys: "q \<noteq> [] \<Longrightarrow> lookup t q \<noteq> None \<Longrightarrow> q \<in> set (map fst t)"
  by (auto simp: lookup_def map_of_eq_None_iff)

lemma lstat_File: "lstat s p = Inr (File c) \<Longrightarrow> lookup (tree s) (resolve (cwd s) p) = Some (File c)"
  by (auto simp: lstat_def split: if_splits option.splits node.splits)

lemma lstat_Dir: "lstat s p = Inr Dir \<Longrightarrow> lookup (tree s) (resolve (cwd s) p) = Some Dir"
  by (auto simp: lstat_def split: if_splits option.splits node.splits)

text \<open>One step of the first loop.\<close>

lemma rollbackFile_cases:
  assumes "rollbackFile f (n, s) = (n', s')"
  shows "(n' = n \<and> s' = s \<and> \<not> existsSync s f)
    \<or> (n' = Suc n \<and> s' = logger ERROR (FailedToDeleteFile f) s \<and> existsSync s f)
    \<or> (n' = n \<and> (\<exists>c. lookup (tree s) (resolve (cwd s) f) = Some (File c))
        \<and> s' = logger DEBUG (DeletedFile f)
                 (s\<lparr>tree := filter (\<lambda>e. fst e \<noteq> resolve (cwd s) f) (tree s)\<rparr>))"
  using assms
  by (auto simp: rollbackFile_def unlinkSync_def existsSync_def dest: lstat_File
      split: if_splits sum.splits node.splits prod.splits option.splits)

lemma rollbackDir_cases:
  assumes "rollbackDir d (n, s) = (n', s')"
  shows "(n' = n \<and> s' = s)
    \<or> (n' = Suc n \<and> s' = logger ERROR (FailedToDeleteDirectory d) s \<and> existsSync s d)
    \<or> (n' = n \<and> lookup (tree s) (resolve (cwd s) d) = Some Dir
        \<and> resolve (cwd s) d \<noteq> []
        \<and> entries (tree s) (resolve (cwd s) d) = []
        \<and> s' = logger DEBUG (DeletedDirectory d)
                 (s\<lparr>tree := filter (\<lambda>e. fst e \<noteq> resolve (cwd s) d) (tree s)\<rparr>))"
  using assms
  by (auto simp: rollbackDir_def rmdirSync_def readdirSync_def existsSync_def dest: lstat_Dir
      split: if_splits sum.splits node.splits prod.splits option.splits)


lemma swept_refl: "swept ps s s"
  by (simp add: swept_def)

lemma swept_trans:
  assumes "swept ps s s1" and "swept ps s1 s2"
  shows "swept ps s s2"
proof -
  from assms have cw: "cwd s1 = cwd s" "cwd s2 = cwd s" "denied s2 = denied s"
    by (simp_all add: swept_def)
  have lk: "\<forall>q. lookup (tree s2) q = lookup (tree s) q
             \<or> (lookup (tree s2) q = None \<and> q \<in> resolve (cwd s) ` set ps)"
  proof
    fix q
    from assms(1) have a: "lookup (tree s1) q = lookup (tree s) q
        \<or> (lookup (tree s1) q = None \<and> q \<in> resolve (cwd s) ` set ps)"
      by (simp add: swept_def)
    from assms(2) cw have b: "lookup (tree s2) q = lookup (tree s1) q
        \<or> (lookup (tree s2) q = None \<and> q \<in> resolve (cwd s) ` set ps)"
      by (simp add: swept_def)
    from a b show "lookup (tree s2) q = lookup (tree s) q
             \<or> (lookup (tree s2) q = None \<and> q \<in> resolve (cwd s) ` set ps)"
      by auto
  qed
  have par: "\<forall>q. q \<noteq> [] \<and> lookup (tree s2) q \<noteq> None \<and> lookup (tree s) (butlast q) = Some Dir
             \<longrightarrow> lookup (tree s2) (butlast q) = Some Dir"
  proof (intro allI impI)
    fix q
    assume h: "q \<noteq> [] \<and> lookup (tree s2) q \<noteq> None \<and> lookup (tree s) (butlast q) = Some Dir"
    from assms(2) have "lookup (tree s2) q = lookup (tree s1) q \<or> lookup (tree s2) q = None"
      by (auto simp: swept_def)
    with h have "lookup (tree s1) q \<noteq> None" by auto
    with h assms(1) have "lookup (tree s1) (butlast q) = Some Dir"
      by (simp add: swept_def)
    with h assms(2) show "lookup (tree s2) (butlast q) = Some Dir"
      by (simp add: swept_def)
  qed
  from assms obtain ms1 ms2 where "logs s1 = logs s @ ms1" "logs s2 = logs s1 @ ms2"
    by (auto simp: swept_def)
  then have "\<exists>ms. logs s2 = logs s @ ms" by simp
  with cw lk par show ?thesis by (simp add: swept_def)
qed

lemma swept_mono: "set ps \<subseteq> set ps' \<Longrightarrow> swept ps s s' \<Longrightarrow> swept ps' s s'"
  unfolding swept_def by blast

lemma swept_logger: "swept ps s (logger l m s)"
  by (simp add: swept_def logger_def)

lemma swept_delete_file:
  assumes "lookup (tree s) (resolve (cwd s) f) = Some (File c)"
  shows "swept [f] s (s\<lparr>tree := filter (\<lambda>e. fst e \<noteq> resolve (cwd s) f) (tree s)\<rparr>)"
  using assms by (auto simp: swept_def lookup_filter_key)

lemma swept_delete_dir:
  assumes "lookup (tree s) (resolve (cwd s) d) = Some Dir"
    and "entries (tree s) (resolve (cwd s) d) = []"
  shows "swept [d] s (s\<lparr>tree := filter (\<lambda>e. fst e \<noteq> resolve (cwd s) d) (tree s)\<rparr>)"
proof -
  let ?k = "resolve (cwd s) d"
  have "\<And>q. q \<noteq> [] \<Longrightarrow> lookup (tree s) q \<noteq> None \<Longrightarrow> butlast q \<noteq> ?k"
  proof
    fix q assume q: "q \<noteq> []" "lookup (tree s) q \<noteq> None" "butlast q = ?k"
    then have "q \<in> set (entries (tree s) ?k)"
      using lookup_keys [of q "tree s"] by (simp add: entries_def)
    with assms(2) show False by simp
  qed
  then show ?thesis
    by (auto simp: swept_def lookup_filter_key split: if_splits)
qed

lemma rollbackFile_swept:
  assumes "rollbackFile f (n, s) = (n', s')"
  shows "swept [f] s s'"
proof -
  from rollbackFile_cases [OF assms] consider
      "s' = s" | "s' = logger ERROR (FailedToDeleteFile f) s"
    | c where "lookup (tree s) (resolve (cwd s) f) = Some (File c)"
        "s' = logger DEBUG (DeletedFile f)
                 (s\<lparr>tree := filter (\<lambda>e. fst e \<noteq> resolve (cwd s) f) (tree s)\<rparr>)"
    by blast
  then show ?thesis
  proof cases
    case 1
    then show ?thesis by (simp add: swept_refl)
  next
    case 2
    then show ?thesis by (simp add: swept_logger)
  next
    case 3
    from swept_delete_file [OF 3(1)] swept_logger 3(2) show ?thesis
      using swept_trans by blast
  qed
qed

lemma rollbackDir_swept:
  assumes "rollbackDir d (n, s) = (n', s')"
  shows "swept [d] s s'"
proof -
  from rollbackDir_cases [OF assms] consider
      "s' = s" | "s' = logger ERROR (FailedToDeleteDirectory d) s"
    | "lookup (tree s) (resolve (cwd s) d) = Some Dir"
        "entries (tree s) (resolve (cwd s) d) = []"
        "s' = logger DEBUG (DeletedDirectory d)
                 (s\<lparr>tree := filter (\<lambda>e. fst e \<noteq> resolve (cwd s) d) (tree s)\<rparr>)"
    by blast
  then show ?thesis
  proof cases
    case 1
    then show ?thesis by (simp add: swept_refl)
  next
    case 2
    then show ?thesis by (simp add: swept_logger)
  next
    case 3
    from swept_delete_dir [OF 3(1) 3(2)] swept_logger 3(3) show ?thesis
      using swept_trans by blast
  qed
qed

lemma rollbackFiles_swept:
  "rollbackFiles l (n, s) = (n', s') \<Longrightarrow> swept l s s'"
proof (induction l arbitrary: n s)
  case Nil
  then show ?case by (simp add: swept_refl)
next
  case (Cons f l)
  obtain n1 s1 where st: "rollbackFile f (n, s) = (n1, s1)" by (cases "rollbackFile f (n, s)")
  with Cons.prems have rest: "rollbackFiles l (n1, s1) = (n', s')" by simp
  from rollbackFile_swept [OF st] have a: "swept (f # l) s s1"
    by (rule swept_mono [rotated]) simp
  from Cons.IH [OF rest] have b: "swept (f # l) s1 s'"
    by (rule swept_mono [rotated]) auto
  from a b show ?case by (rule swept_trans)
qed

lemma rollbackDirs_swept:
  "rollbackDirs l (n, s) = (n', s') \<Longrightarrow> swept l s s'"
proof (induction l arbitrary: n s)
  case Nil
  then show ?case by (simp add: swept_refl)
next
  case (Cons d l)
  obtain n1 s1 where st: "rollbackDir d (n, s) = (n1, s1)" by (cases "rollbackDir d (n, s)")
  with Cons.prems have rest: "rollbackDirs l (n1, s1) = (n', s')" by simp
  from rollbackDir_swept [OF st] have a: "swept (d # l) s s1"
    by (rule swept_mono [rotated]) simp
  from Cons.IH [OF rest] have b: "swept (d # l) s1 s'"
    by (rule swept_mono [rotated]) auto
  from a b show ?case by (rule swept_trans)
qed


lemma deleted_append: "deleted (a @ b) = deleted a @ deleted b"
  by (induction a rule: deleted.induct) simp_all

lemma rollbackFile_frame:
  assumes "rollbackFile f (n, s) = (n', s')"
  shows "createdFiles s' = createdFiles s \<and> createdDirs s' = createdDirs s"
  using rollbackFile_cases [OF assms] by (auto simp: logger_def)

lemma rollbackDir_frame:
  assumes "rollbackDir d (n, s) = (n', s')"
  shows "createdFiles s' = createdFiles s \<and> createdDirs s' = createdDirs s"
  using rollbackDir_cases [OF assms] by (auto simp: logger_def)

lemma rollbackFiles_frame:
  "rollbackFiles l (n, s) = (n', s') \<Longrightarrow>
     createdFiles s' = createdFiles s \<and> createdDirs s' = createdDirs s"
proof (induction l arbitrary: n s)
  case Nil
  then show ?case by simp
next
  case (Cons f l)
  obtain n1 s1 where st: "rollbackFile f (n, s) = (n1, s1)" by (cases "rollbackFile f (n, s)")
  with Cons.prems have rest: "rollbackFiles l (n1, s1) = (n', s')" by simp
  from Cons.IH [OF rest] rollbackFile_frame [OF st] show ?case by simp
qed

lemma rollbackDirs_frame:
  "rollbackDirs l (n, s) = (n', s') \<Longrightarrow>
     createdFiles s' = createdFiles s \<and> createdDirs s' = createdDirs s"
proof (induction l arbitrary: n s)
  case Nil
  then show ?case by simp
next
  case (Cons d l)
  obtain n1 s1 where st: "rollbackDir d (n, s) = (n1, s1)" by (cases "rollbackDir d (n, s)")
  with Cons.prems have rest: "rollbackDirs l (n1, s1) = (n', s')" by simp
  from Cons.IH [OF rest] rollbackDir_frame [OF st] show ?case by simp
qed

text \<open>What one step adds to the count and to the log.\<close>

lemma rollbackFile_log:
  assumes "rollbackFile f (n, s) = (n', s')"
  shows "n \<le> n' \<and> n' \<le> Suc n
    \<and> errorLines (logs s') + n = errorLines (logs s) + n'
    \<and> (\<exists>xs. deleted (logs s') = deleted (logs s) @ xs \<and> subseq xs [f])"
  using rollbackFile_cases [OF assms]
  by (auto simp: logger_def errorLines_def deleted_append)

lemma rollbackDir_log:
  assumes "rollbackDir d (n, s) = (n', s')"
  shows "n \<le> n' \<and> n' \<le> Suc n
    \<and> errorLines (logs s') + n = errorLines (logs s) + n'
    \<and> (\<exists>xs. deleted (logs s') = deleted (logs s) @ xs \<and> subseq xs [d])"
  using rollbackDir_cases [OF assms]
  by (auto simp: logger_def errorLines_def deleted_append)

lemma rollbackFiles_log:
  "rollbackFiles l (n, s) = (n', s') \<Longrightarrow>
     n \<le> n' \<and> n' \<le> n + length l
     \<and> errorLines (logs s') + n = errorLines (logs s) + n'
     \<and> (\<exists>xs. deleted (logs s') = deleted (logs s) @ xs \<and> subseq xs l)"
proof (induction l arbitrary: n s)
  case Nil
  then show ?case by simp
next
  case (Cons f l)
  obtain n1 s1 where st: "rollbackFile f (n, s) = (n1, s1)" by (cases "rollbackFile f (n, s)")
  with Cons.prems have rest: "rollbackFiles l (n1, s1) = (n', s')" by simp
  from rollbackFile_log [OF st] obtain xs where
    a: "n \<le> n1" "n1 \<le> Suc n" "errorLines (logs s1) + n = errorLines (logs s) + n1"
      "deleted (logs s1) = deleted (logs s) @ xs" "subseq xs [f]"
    by blast
  from Cons.IH [OF rest] obtain ys where
    b: "n1 \<le> n'" "n' \<le> n1 + length l" "errorLines (logs s') + n1 = errorLines (logs s1) + n'"
      "deleted (logs s') = deleted (logs s1) @ ys" "subseq ys l"
    by blast
  from a(5) b(5) have "subseq (xs @ ys) ([f] @ l)" by (rule list_emb_append_mono)
  with a b have "deleted (logs s') = deleted (logs s) @ (xs @ ys) \<and> subseq (xs @ ys) (f # l)"
    by simp
  with a b show ?case by (intro conjI exI [of _ "xs @ ys"]) simp_all
qed

lemma rollbackDirs_log:
  "rollbackDirs l (n, s) = (n', s') \<Longrightarrow>
     n \<le> n' \<and> n' \<le> n + length l
     \<and> errorLines (logs s') + n = errorLines (logs s) + n'
     \<and> (\<exists>xs. deleted (logs s') = deleted (logs s) @ xs \<and> subseq xs l)"
proof (induction l arbitrary: n s)
  case Nil
  then show ?case by simp
next
  case (Cons d l)
  obtain n1 s1 where st: "rollbackDir d (n, s) = (n1, s1)" by (cases "rollbackDir d (n, s)")
  with Cons.prems have rest: "rollbackDirs l (n1, s1) = (n', s')" by simp
  from rollbackDir_log [OF st] obtain xs where
    a: "n \<le> n1" "n1 \<le> Suc n" "errorLines (logs s1) + n = errorLines (logs s) + n1"
      "deleted (logs s1) = deleted (logs s) @ xs" "subseq xs [d]"
    by blast
  from Cons.IH [OF rest] obtain ys where
    b: "n1 \<le> n'" "n' \<le> n1 + length l" "errorLines (logs s') + n1 = errorLines (logs s1) + n'"
      "deleted (logs s') = deleted (logs s1) @ ys" "subseq ys l"
    by blast
  from a(5) b(5) have "subseq (xs @ ys) ([d] @ l)" by (rule list_emb_append_mono)
  with a b have "deleted (logs s') = deleted (logs s) @ (xs @ ys) \<and> subseq (xs @ ys) (d # l)"
    by simp
  with a b show ?case by (intro conjI exI [of _ "xs @ ys"]) simp_all
qed

text \<open>A path that does not exist stays absent while nodes are only deleted.\<close>

lemma swept_absent:
  assumes "swept ps s s'" and "\<not> existsSync s p"
  shows "\<not> existsSync s' p"
proof -
  from assms(1) have cw: "cwd s' = cwd s" by (simp add: swept_def)
  from assms(1) have "lookup (tree s') (resolve (cwd s) p) = lookup (tree s) (resolve (cwd s) p)
      \<or> lookup (tree s') (resolve (cwd s) p) = None"
    by (auto simp: swept_def)
  with assms(2) cw show ?thesis
    by (auto simp: existsSync_def lstat_def split: if_splits option.splits node.splits)
qed

lemma swept_createdFiles_update: "swept ps s (s\<lparr>createdFiles := x\<rparr>)"
  by (simp add: swept_def)

lemma swept_createdDirs_update: "swept ps s (s\<lparr>createdDirs := x\<rparr>)"
  by (simp add: swept_def)

lemma existsSync_logger: "existsSync (logger l m s) p = existsSync s p"
  by (simp add: existsSync_def lstat_def logger_def)

lemma rollbackSweep_unfold:
  obtains n2 s2 n3 s3 where
    "rollbackFiles (rev (createdFiles s))
       (0, (logger WARN RollingBack s)\<lparr>createdFiles := rev (createdFiles s)\<rparr>) = (n2, s2)"
    "rollbackDirs (rev (createdDirs s)) (n2, s2\<lparr>createdDirs := rev (createdDirs s)\<rparr>) = (n3, s3)"
    "rollbackSweep s = (n3, s3)"
proof -
  let ?s1 = "(logger WARN RollingBack s)\<lparr>createdFiles := rev (createdFiles s)\<rparr>"
  obtain n2 s2 where f: "rollbackFiles (rev (createdFiles s)) (0, ?s1) = (n2, s2)"
    by (cases "rollbackFiles (rev (createdFiles s)) (0, ?s1)")
  from rollbackFiles_frame [OF f] have d: "createdDirs s2 = createdDirs s"
    by (simp add: logger_def)
  obtain n3 s3 where
    g: "rollbackDirs (rev (createdDirs s)) (n2, s2\<lparr>createdDirs := rev (createdDirs s)\<rparr>) = (n3, s3)"
    by (cases "rollbackDirs (rev (createdDirs s)) (n2, s2\<lparr>createdDirs := rev (createdDirs s)\<rparr>)")
  from f g d have "rollbackSweep s = (n3, s3)"
    by (simp add: rollbackSweep_def Let_def logger_def)
  with f g show ?thesis using that by blast
qed

lemma rollbackSweep_swept:
  "swept (createdFiles s @ createdDirs s) s (snd (rollbackSweep s))"
proof -
  let ?ps = "createdFiles s @ createdDirs s"
  obtain n2 s2 n3 s3 where
    f: "rollbackFiles (rev (createdFiles s))
       (0, (logger WARN RollingBack s)\<lparr>createdFiles := rev (createdFiles s)\<rparr>) = (n2, s2)"
    and g: "rollbackDirs (rev (createdDirs s)) (n2, s2\<lparr>createdDirs := rev (createdDirs s)\<rparr>) = (n3, s3)"
    and r: "rollbackSweep s = (n3, s3)"
    by (rule rollbackSweep_unfold)
  have a: "swept ?ps s (logger WARN RollingBack s)" by (rule swept_logger)
  have b: "swept ?ps (logger WARN RollingBack s)
      ((logger WARN RollingBack s)\<lparr>createdFiles := rev (createdFiles s)\<rparr>)"
    by (rule swept_createdFiles_update)
  from rollbackFiles_swept [OF f]
  have c: "swept ?ps ((logger WARN RollingBack s)\<lparr>createdFiles := rev (createdFiles s)\<rparr>) s2"
    by (rule swept_mono [rotated]) simp
  have d: "swept ?ps s2 (s2\<lparr>createdDirs := rev (createdDirs s)\<rparr>)"
    by (rule swept_createdDirs_update)
  from rollbackDirs_swept [OF g]
  have e: "swept ?ps (s2\<lparr>createdDirs := rev (createdDirs s)\<rparr>) s3"
    by (rule swept_mono [rotated]) simp
  from a b c d e have "swept ?ps s s3" using swept_trans by blast
  with r show ?thesis by simp
qed

lemma rollback_swept: "swept (createdFiles s @ createdDirs s) s (rollback s)"
proof -
  obtain n s1 where r: "rollbackSweep s = (n, s1)" by (cases "rollbackSweep s")
  from rollbackSweep_swept [of s] r have "swept (createdFiles s @ createdDirs s) s s1" by simp
  moreover from r have "rollback s = logger WARN (RollbackCompletedWithErrors n) s1
      \<or> rollback s = logger SUCCESS RollbackCompletedSuccessfully s1"
    by (simp add: rollback_def)
  ultimately show ?thesis using swept_logger swept_trans by metis
qed

lemma rollbackSweep_log:
  "fst (rollbackSweep s) \<le> length (createdFiles s) + length (createdDirs s)
   \<and> errorLines (logs (snd (rollbackSweep s))) = errorLines (logs s) + fst (rollbackSweep s)
   \<and> (\<exists>fs ds. deleted (logs (snd (rollbackSweep s))) = deleted (logs s) @ fs @ ds
        \<and> subseq fs (rev (createdFiles s)) \<and> subseq ds (rev (createdDirs s)))"
proof -
  obtain n2 s2 n3 s3 where
    f: "rollbackFiles (rev (createdFiles s))
       (0, (logger WARN RollingBack s)\<lparr>createdFiles := rev (createdFiles s)\<rparr>) = (n2, s2)"
    and g: "rollbackDirs (rev (createdDirs s)) (n2, s2\<lparr>createdDirs := rev (createdDirs s)\<rparr>) = (n3, s3)"
    and r: "rollbackSweep s = (n3, s3)"
    by (rule rollbackSweep_unfold)
  from rollbackFiles_log [OF f] obtain fs where
    a: "n2 \<le> length (createdFiles s)" "errorLines (logs s2) = errorLines (logs s) + n2"
      "deleted (logs s2) = deleted (logs s) @ fs" "subseq fs (rev (createdFiles s))"
    by (auto simp: logger_def errorLines_def deleted_append)
  from rollbackDirs_log [OF g] obtain ds where
    b: "n3 \<le> n2 + length (createdDirs s)" "errorLines (logs s3) + n2 = errorLines (logs s2) + n3"
      "deleted (logs s3) = deleted (logs s2) @ ds" "subseq ds (rev (createdDirs s))"
    by auto
  from a b have "deleted (logs s3) = deleted (logs s) @ fs @ ds
        \<and> subseq fs (rev (createdFiles s)) \<and> subseq ds (rev (createdDirs s))"
    by simp
  then have "\<exists>fs ds. deleted (logs s3) = deleted (logs s) @ fs @ ds
        \<and> subseq fs (rev (createdFiles s)) \<and> subseq ds (rev (createdDirs s))"
    by blast
  with a b r show ?thesis by simp
qed

lemma rollback_final_log:
  "logs (rollback s) = logs (snd (rollbackSweep s))
     @ [if 0 < fst (rollbackSweep s)
        then (WARN, RollbackCompletedWithErrors (fst (rollbackSweep s)))
        else (SUCCESS, RollbackCompletedSuccessfully)]
   \<and> tree (rollback s) = tree (snd (rollbackSweep s))
   \<and> cwd (rollback s) = cwd (snd (rollbackSweep s))"
  by (cases "rollbackSweep s") (simp add: rollback_def logger_def)

subsection \<open>The report of a rollback\<close>

lemma newLines_eq: "logs s' = logs s @ ms \<Longrightarrow> newLines s s' = ms"
  by (simp add: newLines_def)

lemma newLines_chain:
  assumes "logs s1 = logs s @ a" and "logs s2 = logs s1 @ b"
  shows "newLines s s2 = newLines s s1 @ newLines s1 s2"
  using assms by (simp add: newLines_def)

lemma swept_grows: "swept ps s s' \<Longrightarrow> logs s' = logs s @ newLines s s'"
  by (auto simp: swept_def newLines_def)

lemma rollbackFiles_append: "rollbackFiles (xs @ ys) ns = rollbackFiles ys (rollbackFiles xs ns)"
  by (induction xs arbitrary: ns) simp_all

lemma rollbackDirs_append: "rollbackDirs (xs @ ys) ns = rollbackDirs ys (rollbackDirs xs ns)"
  by (induction xs arbitrary: ns) simp_all

text \<open>One step of each loop, with the reason of a failure.\<close>

lemma rollbackFile_turn:
  assumes "rollbackFile f (n, s) = (n', s')"
  shows "(n' = n \<and> s' = s \<and> \<not> existsSync s f)
    \<or> (n' = Suc n \<and> s' = logger ERROR (FailedToDeleteFile f) s \<and> existsSync s f
        \<and> fst (unlinkSync f s) \<noteq> None)
    \<or> (n' = n \<and> \<not> existsSync s' f \<and> existsSync s f
        \<and> logs s' = logs s @ [(DEBUG, DeletedFile f)])"
proof (cases "existsSync s f")
  case False
  with assms show ?thesis by (simp add: rollbackFile_def)
next
  case True
  obtain e s1 where u: "unlinkSync f s = (e, s1)" by (cases "unlinkSync f s")
  show ?thesis
  proof (cases e)
    case None
    with u obtain c where c: "lstat s f = Inr (File c)"
      and s1: "s1 = s\<lparr>tree := filter (\<lambda>e. fst e \<noteq> resolve (cwd s) f) (tree s)\<rparr>"
      by (auto simp: unlinkSync_def split: sum.splits node.splits if_splits)
    from c have k: "resolve (cwd s) f \<noteq> []"
      by (auto simp: lstat_def lookup_def split: if_splits option.splits node.splits)
    from s1 k have "\<not> existsSync s1 f"
      by (simp add: existsSync_def lstat_def lookup_def map_of_filter_key)
    with assms True u None s1 show ?thesis
      by (auto simp: rollbackFile_def existsSync_def lstat_def logger_def)
  next
    case (Some err)
    with u have "s1 = s"
      by (auto simp: unlinkSync_def split: sum.splits node.splits if_splits)
    with assms True u Some show ?thesis by (simp add: rollbackFile_def)
  qed
qed

lemma rollbackDir_turn:
  assumes "rollbackDir d (n, s) = (n', s')"
  shows "(n' = n \<and> s' = s \<and> \<not> existsSync s d)
    \<or> (n' = n \<and> s' = s \<and> existsSync s d \<and> entries (tree s) (resolve (cwd s) d) \<noteq> [])
    \<or> (n' = Suc n \<and> s' = logger ERROR (FailedToDeleteDirectory d) s \<and> existsSync s d
        \<and> ((\<exists>c. lookup (tree s) (resolve (cwd s) d) = Some (File c))
            \<or> resolve (cwd s) d = [] \<or> resolve (cwd s) d \<in> set (denied s)))
    \<or> (n' = n \<and> \<not> existsSync s' d \<and> existsSync s d
        \<and> logs s' = logs s @ [(DEBUG, DeletedDirectory d)])"
proof (cases "existsSync s d")
  case False
  with assms show ?thesis by (simp add: rollbackDir_def)
next
  case True
  then obtain nd where nd: "lstat s d = Inr nd"
    by (auto simp: existsSync_def split: sum.splits)
  show ?thesis
  proof (cases nd)
    case (File c)
    with nd have "readdirSync d s = Inl ENOTDIR" by (simp add: readdirSync_def)
    moreover from nd File have "lookup (tree s) (resolve (cwd s) d) = Some (File c)"
      by (simp add: lstat_File)
    ultimately show ?thesis using assms True by (simp add: rollbackDir_def)
  next
    case Dir
    with nd have rd: "readdirSync d s = Inr (entries (tree s) (resolve (cwd s) d))"
      by (simp add: readdirSync_def)
    show ?thesis
    proof (cases "entries (tree s) (resolve (cwd s) d) = []")
      case False
      with assms True rd show ?thesis by (simp add: rollbackDir_def)
    next
      case empty: True
      obtain e s1 where r: "rmdirSync d s = (e, s1)" by (cases "rmdirSync d s")
      show ?thesis
      proof (cases e)
        case None
        with r nd Dir empty have k: "resolve (cwd s) d \<noteq> []"
          and s1: "s1 = s\<lparr>tree := filter (\<lambda>e. fst e \<noteq> resolve (cwd s) d) (tree s)\<rparr>"
          by (auto simp: rmdirSync_def split: if_splits)
        from s1 k have "\<not> existsSync s1 d"
          by (simp add: existsSync_def lstat_def lookup_def map_of_filter_key)
        with assms True rd empty r None s1 show ?thesis
          by (auto simp: rollbackDir_def existsSync_def lstat_def logger_def)
      next
        case (Some err)
        with r nd Dir empty have "s1 = s"
          and "resolve (cwd s) d = [] \<or> resolve (cwd s) d \<in> set (denied s)"
          by (auto simp: rmdirSync_def split: if_splits)
        with assms True rd empty r Some show ?thesis by (simp add: rollbackDir_def)
      qed
    qed
  qed
qed

text \<open>What is found at a path that exists was found there before the sweep began.\<close>

lemma swept_lstat_back:
  assumes "swept ps s0 s" and "existsSync s p"
  shows "lstat s0 p = lstat s p \<and> existsSync s0 p
    \<and> lookup (tree s0) (resolve (cwd s0) p) = lookup (tree s) (resolve (cwd s) p)"
proof -
  from assms(1) have cw: "cwd s = cwd s0" by (simp add: swept_def)
  from assms(2) have "lookup (tree s) (resolve (cwd s) p) \<noteq> None" and pn: "p \<noteq> []"
    by (auto simp: existsSync_def lstat_def split: if_splits option.splits)
  with assms(1) cw have "lookup (tree s) (resolve (cwd s0) p) = lookup (tree s0) (resolve (cwd s0) p)"
    by (auto simp: swept_def)
  with cw have l: "lookup (tree s0) (resolve (cwd s0) p) = lookup (tree s) (resolve (cwd s) p)"
    by simp
  with cw have "lstat s0 p = lstat s p" by (simp add: lstat_def)
  with assms(2) l show ?thesis by (simp add: existsSync_def)
qed

lemma swept_unlink_back:
  assumes "swept ps s0 s" and "existsSync s f" and "fst (unlinkSync f s) \<noteq> None"
  shows "existsSync s0 f \<and> fst (unlinkSync f s0) \<noteq> None"
proof -
  from assms(1) have cw: "cwd s = cwd s0" "denied s = denied s0" by (simp_all add: swept_def)
  from swept_lstat_back [OF assms(1,2)] have l: "lstat s0 f = lstat s f" "existsSync s0 f"
    by simp_all
  from assms(3) l cw have "fst (unlinkSync f s0) \<noteq> None"
    by (auto simp: unlinkSync_def split: sum.splits node.splits if_splits)
  with l show ?thesis by simp
qed

lemma swept_rmdir_back:
  assumes "swept ps s0 s" and "existsSync s d"
    and "(\<exists>c. lookup (tree s) (resolve (cwd s) d) = Some (File c))
        \<or> resolve (cwd s) d = [] \<or> resolve (cwd s) d \<in> set (denied s)"
  shows "existsSync s0 d
    \<and> ((\<exists>c. lookup (tree s0) (resolve (cwd s0) d) = Some (File c))
        \<or> resolve (cwd s0) d = [] \<or> resolve (cwd s0) d \<in> set (denied s0))"
proof -
  from assms(1) have cw: "cwd s = cwd s0" "denied s = denied s0" by (simp_all add: swept_def)
  from swept_lstat_back [OF assms(1,2)] assms(3) cw show ?thesis by auto
qed


lemma errorLines_append: "errorLines (a @ b) = errorLines a + errorLines b"
  by (simp add: errorLines_def)

lemma rollbackFile_lines:
  assumes "rollbackFile f (n, s) = (n', s')"
  shows "(newLines s s' = [] \<and> n' = n)
    \<or> (newLines s s' = [(DEBUG, DeletedFile f)] \<and> n' = n)
    \<or> (newLines s s' = [(ERROR, FailedToDeleteFile f)] \<and> n' = Suc n \<and> existsSync s f
        \<and> fst (unlinkSync f s) \<noteq> None)"
  using rollbackFile_turn [OF assms] by (auto simp: newLines_def logger_def)

lemma rollbackDir_lines:
  assumes "rollbackDir d (n, s) = (n', s')"
  shows "(newLines s s' = [] \<and> n' = n)
    \<or> (newLines s s' = [(DEBUG, DeletedDirectory d)] \<and> n' = n)
    \<or> (newLines s s' = [(ERROR, FailedToDeleteDirectory d)] \<and> n' = Suc n \<and> existsSync s d
        \<and> ((\<exists>c. lookup (tree s) (resolve (cwd s) d) = Some (File c))
            \<or> resolve (cwd s) d = [] \<or> resolve (cwd s) d \<in> set (denied s)))"
  using rollbackDir_turn [OF assms] by (auto simp: newLines_def logger_def)

lemma rollbackFiles_report:
  "swept ps s0 s \<Longrightarrow> set l \<subseteq> set ps \<Longrightarrow> rollbackFiles l (n, s) = (n', s') \<Longrightarrow>
     n' = n + errorLines (newLines s s') \<and> errorLines (newLines s s') \<le> length l
     \<and> (\<forall>x \<in> set (newLines s s'). fst x = ERROR \<longrightarrow>
          (\<exists>f \<in> set l. snd x = FailedToDeleteFile f \<and> existsSync s0 f
             \<and> fst (unlinkSync f s0) \<noteq> None))"
proof (induction l arbitrary: n s)
  case Nil
  then show ?case by (simp add: newLines_def errorLines_def)
next
  case (Cons f l)
  obtain n1 s1 where st: "rollbackFile f (n, s) = (n1, s1)" by (cases "rollbackFile f (n, s)")
  with Cons.prems have rest: "rollbackFiles l (n1, s1) = (n', s')" by simp
  from rollbackFile_swept [OF st] have sw1: "swept [f] s s1" .
  from Cons.prems(2) have "set [f] \<subseteq> set ps" by simp
  from this sw1 have "swept ps s s1" by (rule swept_mono)
  with Cons.prems(1) have sw0: "swept ps s0 s1" by (rule swept_trans)
  from Cons.prems(2) have sub: "set l \<subseteq> set ps" by simp
  note ih = Cons.IH [OF sw0 sub rest]
  from swept_grows [OF sw1] swept_grows [OF rollbackFiles_swept [OF rest]]
  have ch: "newLines s s' = newLines s s1 @ newLines s1 s'" by (rule newLines_chain)
  from rollbackFile_lines [OF st] swept_unlink_back [OF Cons.prems(1)]
  have hd: "n1 = n + errorLines (newLines s s1) \<and> errorLines (newLines s s1) \<le> 1
     \<and> (\<forall>x \<in> set (newLines s s1). fst x = ERROR \<longrightarrow>
          snd x = FailedToDeleteFile f \<and> existsSync s0 f \<and> fst (unlinkSync f s0) \<noteq> None)"
    by (auto simp: errorLines_def)
  from hd ih ch show ?case by (auto simp: errorLines_append)
qed

lemma rollbackDirs_report:
  "swept ps s0 s \<Longrightarrow> set l \<subseteq> set ps \<Longrightarrow> rollbackDirs l (n, s) = (n', s') \<Longrightarrow>
     n' = n + errorLines (newLines s s') \<and> errorLines (newLines s s') \<le> length l
     \<and> (\<forall>x \<in> set (newLines s s'). fst x = ERROR \<longrightarrow>
          (\<exists>d \<in> set l. snd x = FailedToDeleteDirectory d \<and> existsSync s0 d
             \<and> ((\<exists>c. lookup (tree s0) (resolve (cwd s0) d) = Some (File c))
                 \<or> resolve (cwd s0) d = [] \<or> resolve (cwd s0) d \<in> set (denied s0))))"
proof (induction l arbitrary: n s)
  case Nil
  then show ?case by (simp add: newLines_def errorLines_def)
next
  case (Cons d l)
  obtain n1 s1 where st: "rollbackDir d (n, s) = (n1, s1)" by (cases "rollbackDir d (n, s)")
  with Cons.prems have rest: "rollbackDirs l (n1, s1) = (n', s')" by simp
  from rollbackDir_swept [OF st] have sw1: "swept [d] s s1" .
  from Cons.prems(2) have "set [d] \<subseteq> set ps" by simp
  from this sw1 have "swept ps s s1" by (rule swept_mono)
  with Cons.prems(1) have sw0: "swept ps s0 s1" by (rule swept_trans)
  from Cons.prems(2) have sub: "set l \<subseteq> set ps" by simp
  note ih = Cons.IH [OF sw0 sub rest]
  from swept_grows [OF sw1] swept_grows [OF rollbackDirs_swept [OF rest]]
  have ch: "newLines s s' = newLines s s1 @ newLines s1 s'" by (rule newLines_chain)
  from rollbackDir_lines [OF st] swept_rmdir_back [OF Cons.prems(1), of d]
  have hd: "n1 = n + errorLines (newLines s s1) \<and> errorLines (newLines s s1) \<le> 1
     \<and> (\<forall>x \<in> set (newLines s s1). fst x = ERROR \<longrightarrow>
          snd x = FailedToDeleteDirectory d \<and> existsSync s0 d
          \<and> ((\<exists>c. lookup (tree s0) (resolve (cwd s0) d) = Some (File c))
              \<or> resolve (cwd s0) d = [] \<or> resolve (cwd s0) d \<in> set (denied s0)))"
    by (auto simp: errorLines_def)
  from hd ih ch show ?case by (auto simp: errorLines_append)
qed

text \<open>The fate of one entry, by the step that is its turn.\<close>

lemma rollbackFiles_turn:
  assumes "rollbackFiles (before @ f # after) (n, s) = (n', s')"
  shows "\<not> existsSync s' f \<or> (ERROR, FailedToDeleteFile f) \<in> set (newLines s s')"
proof -
  obtain nb sb where b: "rollbackFiles before (n, s) = (nb, sb)"
    by (cases "rollbackFiles before (n, s)")
  obtain nd sd where d: "rollbackFile f (nb, sb) = (nd, sd)" by (cases "rollbackFile f (nb, sb)")
  from assms b d have a: "rollbackFiles after (nd, sd) = (n', s')"
    by (simp add: rollbackFiles_append)
  note g1 = swept_grows [OF rollbackFiles_swept [OF b]]
  note g2 = swept_grows [OF rollbackFile_swept [OF d]]
  note g3 = swept_grows [OF rollbackFiles_swept [OF a]]
  from g1 g2 have g12: "logs sd = logs s @ (newLines s sb @ newLines sb sd)" by simp
  from newLines_chain [OF g12 g3] newLines_eq [OF g12]
  have ch: "newLines s s' = newLines s sb @ newLines sb sd @ newLines sd s'" by simp
  from rollbackFile_turn [OF d]
  have "\<not> existsSync sd f \<or> newLines sb sd = [(ERROR, FailedToDeleteFile f)]"
    by (auto simp: newLines_def logger_def)
  with swept_absent [OF rollbackFiles_swept [OF a]] ch show ?thesis by auto
qed

lemma rollbackDirs_turn:
  assumes "rollbackDirs (before @ d # after) (n, s) = (n', s')"
  shows "\<not> existsSync s' d \<or> (ERROR, FailedToDeleteDirectory d) \<in> set (newLines s s')
    \<or> entries (tree (snd (rollbackDirs before (n, s)))) (resolve (cwd s) d) \<noteq> []"
proof -
  obtain nb sb where b: "rollbackDirs before (n, s) = (nb, sb)"
    by (cases "rollbackDirs before (n, s)")
  obtain nd sd where st: "rollbackDir d (nb, sb) = (nd, sd)" by (cases "rollbackDir d (nb, sb)")
  from assms b st have a: "rollbackDirs after (nd, sd) = (n', s')"
    by (simp add: rollbackDirs_append)
  from rollbackDirs_swept [OF b] have cw: "cwd sb = cwd s" by (simp add: swept_def)
  note g1 = swept_grows [OF rollbackDirs_swept [OF b]]
  note g2 = swept_grows [OF rollbackDir_swept [OF st]]
  note g3 = swept_grows [OF rollbackDirs_swept [OF a]]
  from g1 g2 have g12: "logs sd = logs s @ (newLines s sb @ newLines sb sd)" by simp
  from newLines_chain [OF g12 g3] newLines_eq [OF g12]
  have ch: "newLines s s' = newLines s sb @ newLines sb sd @ newLines sd s'" by simp
  from rollbackDir_turn [OF st] cw
  have "\<not> existsSync sd d \<or> newLines sb sd = [(ERROR, FailedToDeleteDirectory d)]
      \<or> entries (tree sb) (resolve (cwd s) d) \<noteq> []"
    by (auto simp: newLines_def logger_def)
  with swept_absent [OF rollbackDirs_swept [OF a]] ch b show ?thesis by auto
qed


lemma afterFiles_eq:
  assumes "rollbackFiles (rev (createdFiles s))
       (0, (logger WARN RollingBack s)\<lparr>createdFiles := rev (createdFiles s)\<rparr>) = (n2, s2)"
  shows "afterFiles s = (n2, s2\<lparr>createdDirs := rev (createdDirs s)\<rparr>)"
proof -
  from rollbackFiles_frame [OF assms] have "createdDirs s2 = createdDirs s"
    by (simp add: logger_def)
  with assms show ?thesis by (simp add: afterFiles_def Let_def logger_def)
qed

lemma rollbackSweep_afterFiles:
  "rollbackSweep s = rollbackDirs (rev (createdDirs s)) (afterFiles s)"
proof -
  obtain n2 s2 n3 s3 where
    f: "rollbackFiles (rev (createdFiles s))
       (0, (logger WARN RollingBack s)\<lparr>createdFiles := rev (createdFiles s)\<rparr>) = (n2, s2)"
    and g: "rollbackDirs (rev (createdDirs s)) (n2, s2\<lparr>createdDirs := rev (createdDirs s)\<rparr>) = (n3, s3)"
    and r: "rollbackSweep s = (n3, s3)"
    by (rule rollbackSweep_unfold)
  from afterFiles_eq [OF f] g r show ?thesis by simp
qed

lemma in_set_split: "x \<in> set xs \<Longrightarrow> \<exists>before after. xs = before @ x # after"
  by (rule split_list)

text \<open>
  C3, as amended. \<open>rollback\<close> returns nothing: the number of failed deletions goes to the
  log only, in the last line that the call adds, which reports success when the number is
  zero. The number is at most the number of ledger entries and is the number of \<open>ERROR\<close>
  lines that the call adds to the log. Each of these lines names an entry of the ledger
  that was on the disk when the rollback began and that the operating system refuses to
  delete: a file whose \<open>unlinkSync\<close> fails, or a directory entry that is a regular file, the
  root, or protected. The sweep is never cut short: every file of the ledger is afterwards
  absent from the disk or named in such a line, and every directory of the ledger gets its
  turn, in reverse order of creation and whatever happened to the entries before it, and
  is afterwards absent from the disk, or named in such a line, or was not empty when its
  turn came. In that last case it is left in place without being counted.
\<close>

theorem C3_rollback_report:
  "logs (rollback s) = logs s @ newLines s (rollback s)
   \<and> fst (rollbackSweep s) = errorLines (newLines s (rollback s))
   \<and> fst (rollbackSweep s) \<le> length (createdFiles s) + length (createdDirs s)
   \<and> last (newLines s (rollback s))
       = (if 0 < fst (rollbackSweep s)
          then (WARN, RollbackCompletedWithErrors (fst (rollbackSweep s)))
          else (SUCCESS, RollbackCompletedSuccessfully))
   \<and> (\<forall>f \<in> set (createdFiles s).
        \<not> existsSync (rollback s) f
        \<or> (ERROR, FailedToDeleteFile f) \<in> set (newLines s (rollback s)))
   \<and> (\<forall>before d after. rev (createdDirs s) = before @ d # after \<longrightarrow>
        rollbackSweep s = rollbackDirs after (rollbackDir d (rollbackDirs before (afterFiles s)))
        \<and> (\<not> existsSync (rollback s) d
            \<or> (ERROR, FailedToDeleteDirectory d) \<in> set (newLines s (rollback s))
            \<or> entries (tree (snd (rollbackDirs before (afterFiles s)))) (resolve (cwd s) d) \<noteq> []))
   \<and> (\<forall>x \<in> set (newLines s (rollback s)). fst x = ERROR \<longrightarrow>
        (\<exists>f \<in> set (createdFiles s). snd x = FailedToDeleteFile f \<and> existsSync s f
           \<and> fst (unlinkSync f s) \<noteq> None)
        \<or> (\<exists>d \<in> set (createdDirs s). snd x = FailedToDeleteDirectory d \<and> existsSync s d
             \<and> ((\<exists>c. lookup (tree s) (resolve (cwd s) d) = Some (File c))
                 \<or> resolve (cwd s) d = [] \<or> resolve (cwd s) d \<in> set (denied s))))"
proof -
  let ?S1 = "(logger WARN RollingBack s)\<lparr>createdFiles := rev (createdFiles s)\<rparr>"
  let ?ps = "createdFiles s @ createdDirs s"
  obtain n2 s2 n3 s3 where
    f: "rollbackFiles (rev (createdFiles s)) (0, ?S1) = (n2, s2)"
    and g: "rollbackDirs (rev (createdDirs s)) (n2, s2\<lparr>createdDirs := rev (createdDirs s)\<rparr>) = (n3, s3)"
    and r: "rollbackSweep s = (n3, s3)"
    by (rule rollbackSweep_unfold)
  let ?S3 = "s2\<lparr>createdDirs := rev (createdDirs s)\<rparr>"
  let ?fin = "if 0 < n3 then (WARN, RollbackCompletedWithErrors n3)
              else (SUCCESS, RollbackCompletedSuccessfully)"
  from afterFiles_eq [OF f] have af: "afterFiles s = (n2, ?S3)" .
  from r have rb: "rollback s = logger (fst ?fin) (snd ?fin) s3"
    by (simp add: rollback_def)
  \<comment> \<open>the states are linked by sweeps\<close>
  have sw01: "swept ?ps s ?S1"
    using swept_logger [of ?ps s WARN RollingBack]
      swept_createdFiles_update [of ?ps "logger WARN RollingBack s" "rev (createdFiles s)"]
    by (simp add: swept_def logger_def)
  have sw12: "swept ?ps ?S1 s2"
    using rollbackFiles_swept [OF f] by (rule swept_mono [rotated]) simp
  have sw23: "swept ?ps s2 ?S3" by (rule swept_createdDirs_update)
  have sw34: "swept ?ps ?S3 s3"
    using rollbackDirs_swept [OF g] by (rule swept_mono [rotated]) simp
  from sw01 sw12 have sw02: "swept ?ps s s2" by (rule swept_trans)
  from sw02 sw23 have sw03: "swept ?ps s ?S3" by (rule swept_trans)
  from sw23 sw34 have sw24: "swept ?ps s2 s3" by (rule swept_trans)
  \<comment> \<open>the lines of the log\<close>
  have l1: "logs ?S1 = logs s @ [(WARN, RollingBack)]" by (simp add: logger_def)
  note l2 = swept_grows [OF sw12]
  have l3: "logs s3 = logs s2 @ newLines ?S3 s3"
    using swept_grows [OF sw34] by simp
  have l4: "logs (rollback s) = logs s3 @ [?fin]"
    using rb by (simp add: logger_def)
  let ?F = "newLines ?S1 s2"
  let ?D = "newLines ?S3 s3"
  from l1 l2 l3 l4 have all: "logs (rollback s) = logs s @ ((WARN, RollingBack) # ?F @ ?D @ [?fin])"
    by simp
  from newLines_eq [OF all]
  have nl: "newLines s (rollback s) = (WARN, RollingBack) # ?F @ ?D @ [?fin]" .
  \<comment> \<open>counts and reasons\<close>
  from rollbackFiles_report [OF sw01 _ f]
  have fr: "n2 = errorLines ?F" "errorLines ?F \<le> length (createdFiles s)"
    "\<forall>x \<in> set ?F. fst x = ERROR \<longrightarrow>
          (\<exists>f \<in> set (createdFiles s). snd x = FailedToDeleteFile f \<and> existsSync s f
             \<and> fst (unlinkSync f s) \<noteq> None)"
    by auto
  from rollbackDirs_report [OF sw03 _ g]
  have dr: "n3 = n2 + errorLines ?D" "errorLines ?D \<le> length (createdDirs s)"
    "\<forall>x \<in> set ?D. fst x = ERROR \<longrightarrow>
          (\<exists>d \<in> set (createdDirs s). snd x = FailedToDeleteDirectory d \<and> existsSync s d
             \<and> ((\<exists>c. lookup (tree s) (resolve (cwd s) d) = Some (File c))
                 \<or> resolve (cwd s) d = [] \<or> resolve (cwd s) d \<in> set (denied s)))"
    by auto
  have c1: "logs (rollback s) = logs s @ newLines s (rollback s)" using all nl by simp
  have c2: "fst (rollbackSweep s) = errorLines (newLines s (rollback s))"
    using r nl fr(1) dr(1) by (simp add: errorLines_def)
  have c3: "fst (rollbackSweep s) \<le> length (createdFiles s) + length (createdDirs s)"
    using r fr dr by simp
  have c4: "last (newLines s (rollback s))
       = (if 0 < fst (rollbackSweep s)
          then (WARN, RollbackCompletedWithErrors (fst (rollbackSweep s)))
          else (SUCCESS, RollbackCompletedSuccessfully))"
    using r nl by simp
  have ex: "\<And>p. \<not> existsSync s3 p \<Longrightarrow> \<not> existsSync (rollback s) p"
    using rb by (simp add: existsSync_logger)
  have c5: "\<forall>f \<in> set (createdFiles s).
        \<not> existsSync (rollback s) f
        \<or> (ERROR, FailedToDeleteFile f) \<in> set (newLines s (rollback s))"
  proof
    fix x assume "x \<in> set (createdFiles s)"
    then have "x \<in> set (rev (createdFiles s))" by simp
    then obtain before after where sp: "rev (createdFiles s) = before @ x # after"
      using in_set_split by fast
    from f sp have "rollbackFiles (before @ x # after) (0, ?S1) = (n2, s2)" by simp
    from rollbackFiles_turn [OF this]
    have "\<not> existsSync s2 x \<or> (ERROR, FailedToDeleteFile x) \<in> set ?F" .
    with swept_absent [OF sw24] ex nl
    show "\<not> existsSync (rollback s) x
        \<or> (ERROR, FailedToDeleteFile x) \<in> set (newLines s (rollback s))"
      by auto
  qed
  have c6: "\<forall>before d after. rev (createdDirs s) = before @ d # after \<longrightarrow>
        rollbackSweep s = rollbackDirs after (rollbackDir d (rollbackDirs before (afterFiles s)))
        \<and> (\<not> existsSync (rollback s) d
            \<or> (ERROR, FailedToDeleteDirectory d) \<in> set (newLines s (rollback s))
            \<or> entries (tree (snd (rollbackDirs before (afterFiles s)))) (resolve (cwd s) d) \<noteq> [])"
  proof (intro allI impI)
    fix before d after
    assume sp: "rev (createdDirs s) = before @ d # after"
    from sp have e: "rollbackSweep s
        = rollbackDirs after (rollbackDir d (rollbackDirs before (afterFiles s)))"
      by (simp add: rollbackSweep_afterFiles rollbackDirs_append)
    from sw03 have cw: "cwd ?S3 = cwd s" by (simp add: swept_def)
    from g sp have "rollbackDirs (before @ d # after) (n2, ?S3) = (n3, s3)" by simp
    from rollbackDirs_turn [OF this] cw af
    have "\<not> existsSync s3 d \<or> (ERROR, FailedToDeleteDirectory d) \<in> set ?D
        \<or> entries (tree (snd (rollbackDirs before (afterFiles s)))) (resolve (cwd s) d) \<noteq> []"
      by simp
    with ex nl e
    show "rollbackSweep s = rollbackDirs after (rollbackDir d (rollbackDirs before (afterFiles s)))
        \<and> (\<not> existsSync (rollback s) d
            \<or> (ERROR, FailedToDeleteDirectory d) \<in> set (newLines s (rollback s))
            \<or> entries (tree (snd (rollbackDirs before (afterFiles s)))) (resolve (cwd s) d) \<noteq> [])"
      by auto
  qed
  have c7: "\<forall>x \<in> set (newLines s (rollback s)). fst x = ERROR \<longrightarrow>
        (\<exists>f \<in> set (createdFiles s). snd x = FailedToDeleteFile f \<and> existsSync s f
           \<and> fst (unlinkSync f s) \<noteq> None)
        \<or> (\<exists>d \<in> set (createdDirs s). snd x = FailedToDeleteDirectory d \<and> existsSync s d
             \<and> ((\<exists>c. lookup (tree s) (resolve (cwd s) d) = Some (File c))
                 \<or> resolve (cwd s) d = [] \<or> resolve (cwd s) d \<in> set (denied s)))"
  proof (intro ballI impI)
    fix x assume x: "x \<in> set (newLines s (rollback s))" and e: "fst x = ERROR"
    from x nl e have "x \<in> set ?F \<or> x \<in> set ?D" by (auto split: if_splits)
    with fr(3) dr(3) e show "(\<exists>f \<in> set (createdFiles s). snd x = FailedToDeleteFile f \<and> existsSync s f
           \<and> fst (unlinkSync f s) \<noteq> None)
        \<or> (\<exists>d \<in> set (createdDirs s). snd x = FailedToDeleteDirectory d \<and> existsSync s d
             \<and> ((\<exists>c. lookup (tree s) (resolve (cwd s) d) = Some (File c))
                 \<or> resolve (cwd s) d = [] \<or> resolve (cwd s) d \<in> set (denied s)))"
      by blast
  qed
  from c1 c2 c3 c4 c5 c6 c7 show ?thesis by blast
qed

theorem C3_rollback_report_witness:
  "''/w/g'' \<in> set (createdFiles lockedFile)
   \<and> \<not> existsSync (rollback lockedFile) ''/w/g''
   \<and> newLines lockedFile (rollback lockedFile)
       = [(WARN, RollingBack), (DEBUG, DeletedFile ''/w/g''), (ERROR, FailedToDeleteFile ''/w/f''),
          (WARN, RollbackCompletedWithErrors 1)]
   \<and> fst (rollbackSweep lockedFile) = 1
   \<and> existsSync lockedFile ''/w/f''
   \<and> fst (unlinkSync ''/w/f'' lockedFile) \<noteq> None
   \<and> rev (createdDirs foreignFile) = [] @ ''/w/d'' # []
   \<and> existsSync (rollback foreignFile) ''/w/d''
   \<and> (ERROR, FailedToDeleteDirectory ''/w/d'') \<notin> set (newLines foreignFile (rollback foreignFile))
   \<and> entries (tree (snd (rollbackDirs [] (afterFiles foreignFile))))
        (resolve (cwd foreignFile) ''/w/d'') \<noteq> []"
proof -
  have m: "''/w/g'' \<in> set (createdFiles lockedFile)" by (simp add: lockedFile_def)
  have l: "newLines lockedFile (rollback lockedFile)
      = [(WARN, RollingBack), (DEBUG, DeletedFile ''/w/g''), (ERROR, FailedToDeleteFile ''/w/f''),
         (WARN, RollbackCompletedWithErrors 1)]"
    by code_simp
  have n: "fst (rollbackSweep lockedFile) = 1" by code_simp
  have cf: "createdFiles lockedFile = [''/w/f'', ''/w/g'']"
    and cd: "createdDirs lockedFile = []" by (simp_all add: lockedFile_def)
  note locked = C3_rollback_report [of lockedFile]
  from locked m
  have "\<not> existsSync (rollback lockedFile) ''/w/g''
      \<or> (ERROR, FailedToDeleteFile ''/w/g'') \<in> set (newLines lockedFile (rollback lockedFile))"
    by blast
  with l have g: "\<not> existsSync (rollback lockedFile) ''/w/g''" by simp
  from l have "(ERROR, FailedToDeleteFile ''/w/f'') \<in> set (newLines lockedFile (rollback lockedFile))"
    by simp
  with locked have "(\<exists>f \<in> set (createdFiles lockedFile).
        snd (ERROR, FailedToDeleteFile ''/w/f'') = FailedToDeleteFile f \<and> existsSync lockedFile f
        \<and> fst (unlinkSync f lockedFile) \<noteq> None)
      \<or> (\<exists>d \<in> set (createdDirs lockedFile).
        snd (ERROR, FailedToDeleteFile ''/w/f'') = FailedToDeleteDirectory d)"
    by fastforce
  with cd have f: "existsSync lockedFile ''/w/f'' \<and> fst (unlinkSync ''/w/f'' lockedFile) \<noteq> None"
    by auto
  have r: "rev (createdDirs foreignFile) = [] @ ''/w/d'' # []" by (simp add: foreignFile_def)
  have x: "existsSync (rollback foreignFile) ''/w/d''" by code_simp
  have fl: "newLines foreignFile (rollback foreignFile)
      = [(WARN, RollingBack), (DEBUG, DeletedFile ''/w/d/own.js''),
         (SUCCESS, RollbackCompletedSuccessfully)]"
    by code_simp
  then have e: "(ERROR, FailedToDeleteDirectory ''/w/d'')
      \<notin> set (newLines foreignFile (rollback foreignFile))"
    by simp
  from C3_rollback_report [of foreignFile] r
  have "\<not> existsSync (rollback foreignFile) ''/w/d''
      \<or> (ERROR, FailedToDeleteDirectory ''/w/d'') \<in> set (newLines foreignFile (rollback foreignFile))
      \<or> entries (tree (snd (rollbackDirs [] (afterFiles foreignFile))))
           (resolve (cwd foreignFile) ''/w/d'') \<noteq> []"
    by blast
  with x e have "entries (tree (snd (rollbackDirs [] (afterFiles foreignFile))))
           (resolve (cwd foreignFile) ''/w/d'') \<noteq> []"
    by blast
  with m g l n f r x e show ?thesis by blast
qed

text \<open>
  C3 as stated fails: the directory \<open>/w/d\<close> of the ledger holds a file that the ledger does
  not know. It survives the rollback, the count is zero and the log reports success.
\<close>

theorem C3_counterexample:
  "''/w/d'' \<in> set (createdDirs foreignFile)
   \<and> existsSync (rollback foreignFile) ''/w/d''
   \<and> fst (rollbackSweep foreignFile) = 0
   \<and> logs (rollback foreignFile)
       = [(WARN, RollingBack), (DEBUG, DeletedFile ''/w/d/own.js''),
          (SUCCESS, RollbackCompletedSuccessfully)]"
  by code_simp

text \<open>
  C4, as amended. The deletions that \<open>rollback\<close> logs are, in order, created files in
  reverse order of creation and then created directories in reverse order of creation:
  all files come before any directory. \<open>rollback\<close> changes the disk at the paths of the
  ledger only, so whatever else is on the disk survives it. And it never removes a
  directory that still holds an entry afterwards: a directory is deleted only when empty.
\<close>

theorem C4_rollback_safe:
  "(\<exists>fs ds. deleted (logs (rollback s)) = deleted (logs s) @ fs @ ds
        \<and> subseq fs (rev (createdFiles s)) \<and> subseq ds (rev (createdDirs s)))
   \<and> (\<forall>q. q \<notin> resolve (cwd s) ` set (createdFiles s @ createdDirs s)
        \<longrightarrow> lookup (tree (rollback s)) q = lookup (tree s) q)
   \<and> (\<forall>q. q \<noteq> [] \<and> lookup (tree (rollback s)) q \<noteq> None \<and> lookup (tree s) (butlast q) = Some Dir
        \<longrightarrow> lookup (tree (rollback s)) (butlast q) = Some Dir)"
proof -
  have d: "deleted (logs (rollback s)) = deleted (logs (snd (rollbackSweep s)))"
    using rollback_final_log [of s] by (simp add: deleted_append)
  from rollback_swept [of s]
  have b: "\<forall>q. q \<notin> resolve (cwd s) ` set (createdFiles s @ createdDirs s)
        \<longrightarrow> lookup (tree (rollback s)) q = lookup (tree s) q"
    unfolding swept_def by blast
  from rollback_swept [of s]
  have c: "\<forall>q. q \<noteq> [] \<and> lookup (tree (rollback s)) q \<noteq> None \<and> lookup (tree s) (butlast q) = Some Dir
        \<longrightarrow> lookup (tree (rollback s)) (butlast q) = Some Dir"
    unfolding swept_def by blast
  from d b c rollbackSweep_log [of s] show ?thesis by simp
qed

theorem C4_rollback_safe_witness:
  "[''w'', ''d'', ''notes.txt''] \<notin> resolve (cwd foreignFile) ` set (createdFiles foreignFile @ createdDirs foreignFile)
   \<and> lookup (tree (rollback foreignFile)) [''w'', ''d'', ''notes.txt''] = Some (File (Foreign ''mine''))
   \<and> lookup (tree (rollback foreignFile)) [''w'', ''d''] = Some Dir
   \<and> lookup (tree (rollback foreignFile)) [''w'', ''d'', ''own.js''] = None"
proof -
  have h: "[''w'', ''d'', ''notes.txt''] \<notin> resolve (cwd foreignFile) ` set (createdFiles foreignFile @ createdDirs foreignFile)"
    by code_simp
  have b: "lookup (tree foreignFile) [''w'', ''d'', ''notes.txt''] = Some (File (Foreign ''mine''))"
    by code_simp
  have p: "lookup (tree foreignFile) (butlast [''w'', ''d'', ''notes.txt'']) = Some Dir"
    by code_simp
  have o: "lookup (tree (rollback foreignFile)) [''w'', ''d'', ''own.js''] = None"
    by code_simp
  from C4_rollback_safe [of foreignFile] h b
  have s1: "lookup (tree (rollback foreignFile)) [''w'', ''d'', ''notes.txt''] = Some (File (Foreign ''mine''))"
    by simp
  from C4_rollback_safe [of foreignFile] s1 p
  have "lookup (tree (rollback foreignFile)) (butlast [''w'', ''d'', ''notes.txt'']) = Some Dir"
    by (metis list.distinct(1) option.distinct(1))
  then have s2: "lookup (tree (rollback foreignFile)) [''w'', ''d''] = Some Dir" by simp
  from h s1 s2 o show ?thesis by blast
qed

text \<open>
  C4 as stated fails in its first part: after a file \<open>/w/f\<close> and then a directory \<open>/w/d\<close>
  are created, \<open>rollback\<close> deletes the file first, although the directory is the newer of
  the two.
\<close>

theorem C4_counterexample:
  "logs (rollback (snd (createDirectory ''/w/d'' True (snd (writeFile ''/w/f'' Env emptyDisk)))))
   = [(DEBUG, CreatedFile ''/w/f''), (DEBUG, CreatedDirectory ''/w/d''), (WARN, RollingBack),
      (DEBUG, DeletedFile ''/w/f''), (DEBUG, DeletedDirectory ''/w/d''),
      (SUCCESS, RollbackCompletedSuccessfully)]"
  by code_simp

section \<open>Package installation\<close>

text \<open>While the process does not exit, the handlers only collect its output.\<close>

lemma awaitInstall_no_exit:
  "\<not> list_ex exits es \<Longrightarrow>
     fst (awaitInstall es i s) = Inl (InstallationTimeout (TIMEOUT div 1000))
     \<and> childRunning (fst (snd (awaitInstall es i s))) = childRunning i
     \<and> snd (snd (awaitInstall es i s)) = s"
proof (induction es arbitrary: i)
  case Nil
  then show ?case by (simp add: onTimeout_def)
next
  case (Cons e es)
  then show ?case by (cases e) simp_all
qed

text \<open>
  C2, as amended. When the process has not exited by the time the timer fires, the call
  fails with the timeout error, which carries the configured 300000 ms as 300 seconds.
  The timer's callback does nothing but reject the promise: the process is left running,
  and nothing is added to the installed packages or changed on the disk.
\<close>

theorem C2_timeout:
  assumes "\<not> list_ex exits (npm projectDir (spawnArgs deps dev))"
  shows "fst (pmInstallDependencies npm projectDir deps dev s) = Inl (InstallationTimeout 300)
    \<and> children (snd (pmInstallDependencies npm projectDir deps dev s))
        = children s @ [(spawnArgs deps dev, True)]
    \<and> installedPackages (snd (pmInstallDependencies npm projectDir deps dev s))
        = installedPackages s
    \<and> tree (snd (pmInstallDependencies npm projectDir deps dev s)) = tree s"
proof -
  let ?i0 = "\<lparr>packages = packagesOf deps, stdout = [], stderr = [],
                timerArmed = True, childRunning = True\<rparr>"
  let ?s0 = "logger INFO (Installing (packagesOf deps)) s"
  obtain r i1 s1 where aw: "awaitInstall (npm projectDir (spawnArgs deps dev)) ?i0 ?s0 = (r, i1, s1)"
    by (cases "awaitInstall (npm projectDir (spawnArgs deps dev)) ?i0 ?s0") auto
  from awaitInstall_no_exit [OF assms, of ?i0 ?s0] aw
  have r: "r = Inl (InstallationTimeout (TIMEOUT div 1000))"
    and i1: "childRunning i1 = True" and s1: "s1 = ?s0"
    by simp_all
  have t: "TIMEOUT div 1000 = 300" by (simp add: TIMEOUT_def)
  from aw r i1 s1 t show ?thesis
    by (simp add: pmInstallDependencies_def Let_def logger_def)
qed

theorem C2_timeout_witness:
  "fst (pmInstallDependencies (\<lambda>d a. [StdoutData ''.'', StderrData ''warn'']) ''/w/demo''
         (One ''express'') False emptyDisk)
     = Inl (InstallationTimeout 300)
   \<and> children (snd (pmInstallDependencies (\<lambda>d a. [StdoutData ''.'', StderrData ''warn''])
         ''/w/demo'' (One ''express'') False emptyDisk))
     = [([''install'', ''express''], True)]"
proof -
  have a: "spawnArgs (One ''express'') False = [''install'', ''express'']"
    by (simp add: spawnArgs_def packagesOf_def)
  have c: "children emptyDisk = []" by (simp add: emptyDisk_def)
  from C2_timeout [of "\<lambda>d a. [StdoutData ''.'', StderrData ''warn'']" "''/w/demo''"
      "One ''express''" False emptyDisk] a c
  show ?thesis by simp
qed

text \<open>
  C2 as stated fails: a process that emits nothing and never exits makes the call fail
  with the timeout error, and is still running when the call has failed.
\<close>

theorem C2_counterexample:
  "fst (pmInstallDependencies (\<lambda>d a. []) ''/w/demo'' (One ''express'') False emptyDisk)
     = Inl (InstallationTimeout 300)
   \<and> children (snd (pmInstallDependencies (\<lambda>d a. []) ''/w/demo'' (One ''express'') False
         emptyDisk))
     = [([''install'', ''express''], True)]"
  by (simp add: pmInstallDependencies_def Let_def onTimeout_def TIMEOUT_def spawnArgs_def
      packagesOf_def logger_def emptyDisk_def)

lemma awaitInstall_children:
  "children (snd (snd (awaitInstall es i s))) = children s"
proof (induction es arbitrary: i s)
  case Nil
  then show ?case by (simp add: onTimeout_def)
next
  case (Cons e es)
  then show ?case by (cases e) (simp_all add: logger_def)
qed

lemma awaitInstall_success_exited:
  "fst (awaitInstall es i s) = Inr u \<Longrightarrow> childRunning (fst (snd (awaitInstall es i s))) = False"
proof (induction es arbitrary: i s)
  case Nil
  then show ?case by (simp add: onTimeout_def)
next
  case (Cons e es)
  then show ?case by (cases e) (auto split: if_splits)
qed

lemma pm_children:
  "map fst (children (snd (pmInstallDependencies npm dir deps dev s)))
     = map fst (children s) @ [spawnArgs deps dev]"
proof -
  let ?i0 = "\<lparr>packages = packagesOf deps, stdout = [], stderr = [],
                timerArmed = True, childRunning = True\<rparr>"
  let ?s0 = "logger INFO (Installing (packagesOf deps)) s"
  obtain r i1 s1 where aw: "awaitInstall (npm dir (spawnArgs deps dev)) ?i0 ?s0 = (r, i1, s1)"
    by (cases "awaitInstall (npm dir (spawnArgs deps dev)) ?i0 ?s0") auto
  from awaitInstall_children [of "npm dir (spawnArgs deps dev)" ?i0 ?s0] aw
  have "children s1 = children s" by (simp add: logger_def)
  with aw show ?thesis by (simp add: pmInstallDependencies_def Let_def)
qed

lemma pm_success_children:
  assumes "pmInstallDependencies npm dir deps dev s = (Inr u, s')"
  shows "children s' = children s @ [(spawnArgs deps dev, False)]"
proof -
  let ?i0 = "\<lparr>packages = packagesOf deps, stdout = [], stderr = [],
                timerArmed = True, childRunning = True\<rparr>"
  let ?s0 = "logger INFO (Installing (packagesOf deps)) s"
  obtain r i1 s1 where aw: "awaitInstall (npm dir (spawnArgs deps dev)) ?i0 ?s0 = (r, i1, s1)"
    by (cases "awaitInstall (npm dir (spawnArgs deps dev)) ?i0 ?s0") auto
  from aw assms have r: "r = Inr u"
    and s': "s' = s1\<lparr>children := children s1 @ [(spawnArgs deps dev, childRunning i1)]\<rparr>"
    by (simp_all add: pmInstallDependencies_def Let_def)
  from awaitInstall_children [of "npm dir (spawnArgs deps dev)" ?i0 ?s0] aw
  have c: "children s1 = children s" by (simp add: logger_def)
  from awaitInstall_success_exited [of "npm dir (spawnArgs deps dev)" ?i0 ?s0 u] aw r
  have "childRunning i1 = False" by simp
  with s' c show ?thesis by simp
qed

lemma installEach_success_children:
  "installEach npm dir calls s = (Inr u, s') \<Longrightarrow>
     children s' = children s @ map (\<lambda>c. (spawnArgs (fst c) (snd c), False)) calls"
proof (induction calls arbitrary: s)
  case Nil
  then show ?case by simp
next
  case (Cons c calls)
  obtain deps dev where c: "c = (deps, dev)" by (cases c)
  obtain r s1 where pm: "pmInstallDependencies npm dir deps dev s = (r, s1)"
    by (cases "pmInstallDependencies npm dir deps dev s")
  show ?case
  proof (cases r)
    case (Inl e)
    with Cons.prems c pm show ?thesis by simp
  next
    case (Inr v)
    with Cons.prems c pm have rest: "installEach npm dir calls s1 = (Inr u, s')" by simp
    from pm Inr have "children s1 = children s @ [(spawnArgs deps dev, False)]"
      using pm_success_children by blast
    with Cons.IH [OF rest] c show ?thesis by simp
  qed
qed

lemma logger_children: "children (logger l m s) = children s"
  by (simp add: logger_def)

lemma calls_bounds:
  "2 \<le> length (runtimeCalls cfg @ devCalls cfg) \<and> length (runtimeCalls cfg @ devCalls cfg) \<le> 6"
  by (simp add: runtimeCalls_def devCalls_def)

lemma calls_two:
  "(length (runtimeCalls cfg @ devCalls cfg) = 2)
     = (useEjs cfg \<noteq> ''EJS (Dynamic)'' \<and> useDB cfg \<noteq> ''MySQL'' \<and> useDB cfg \<noteq> ''PostgreSQL''
        \<and> useDB cfg \<noteq> ''MongoDB'' \<and> \<not> authentication cfg \<and> \<not> linter cfg)"
  by (simp add: runtimeCalls_def devCalls_def)

text \<open>
  C7, as amended. \<open>installDependencies\<close> makes one invocation for each group of packages
  that the configuration selects: the five base packages, then \<open>ejs\<close>, the database
  driver and \<open>jsonwebtoken\<close> as selected, then \<open>nodemon\<close>, then \<open>eslint prettier\<close> if
  selected. That is between two and six invocations, and two exactly when the
  configuration selects none of the optional groups; when the call succeeds, exactly
  these were started, in this order, and each has exited. When the first invocation
  fails, its error is the result and no other invocation is started.
\<close>

theorem C7_install_invocations:
  "2 \<le> length (runtimeCalls cfg @ devCalls cfg) \<and> length (runtimeCalls cfg @ devCalls cfg) \<le> 6
   \<and> (length (runtimeCalls cfg @ devCalls cfg) = 2)
       = (useEjs cfg \<noteq> ''EJS (Dynamic)'' \<and> useDB cfg \<noteq> ''MySQL'' \<and> useDB cfg \<noteq> ''PostgreSQL''
          \<and> useDB cfg \<noteq> ''MongoDB'' \<and> \<not> authentication cfg \<and> \<not> linter cfg)
   \<and> (installDependencies npm cfg s = (Inr u, s') \<longrightarrow>
        children s' = children s
          @ map (\<lambda>c. (spawnArgs (fst c) (snd c), False)) (runtimeCalls cfg @ devCalls cfg))
   \<and> (fst (pmInstallDependencies npm (rootDirOf cfg s)
              (Many [''express'', ''cors'', ''dotenv'', ''helmet'', ''morgan'']) True
              (logger INFO InstallingDependencies s)) = Inl e \<longrightarrow>
        fst (installDependencies npm cfg s) = Inl e
        \<and> map fst (children (snd (installDependencies npm cfg s)))
            = map fst (children s)
              @ [[''install'', ''--save-dev'', ''express'', ''cors'', ''dotenv'', ''helmet'',
                  ''morgan'']])"
proof -
  let ?first = "Many [''express'', ''cors'', ''dotenv'', ''helmet'', ''morgan'']"
  let ?s0 = "logger INFO InstallingDependencies s"
  have b: "installDependencies npm cfg s = (Inr u, s') \<longrightarrow>
        children s' = children s
          @ map (\<lambda>c. (spawnArgs (fst c) (snd c), False)) (runtimeCalls cfg @ devCalls cfg)"
  proof
    assume ok: "installDependencies npm cfg s = (Inr u, s')"
    obtain r1 s1 where rt: "installEach npm (rootDirOf cfg s) (runtimeCalls cfg) ?s0 = (r1, s1)"
      by (cases "installEach npm (rootDirOf cfg s) (runtimeCalls cfg) ?s0")
    from ok rt obtain u1 where r1: "r1 = Inr u1"
      by (cases r1) (auto simp: installDependencies_def)
    from ok rt r1 have dv: "installEach npm (rootDirOf cfg s) (devCalls cfg)
        (logger INFO InstallingDevDependencies s1) = (Inr u, s')"
      by (simp add: installDependencies_def)
    from installEach_success_children [of npm _ _ ?s0 u1 s1] rt r1
    have c1: "children s1 = children s
        @ map (\<lambda>c. (spawnArgs (fst c) (snd c), False)) (runtimeCalls cfg)"
      by (simp add: logger_children)
    from installEach_success_children [OF dv]
    have "children s' = children s1
        @ map (\<lambda>c. (spawnArgs (fst c) (snd c), False)) (devCalls cfg)"
      by (simp add: logger_children)
    with c1 show "children s' = children s
          @ map (\<lambda>c. (spawnArgs (fst c) (snd c), False)) (runtimeCalls cfg @ devCalls cfg)"
      by simp
  qed
  have c: "fst (pmInstallDependencies npm (rootDirOf cfg s) ?first True ?s0) = Inl e \<longrightarrow>
        fst (installDependencies npm cfg s) = Inl e
        \<and> map fst (children (snd (installDependencies npm cfg s)))
            = map fst (children s)
              @ [[''install'', ''--save-dev'', ''express'', ''cors'', ''dotenv'', ''helmet'',
                  ''morgan'']]"
  proof
    assume f: "fst (pmInstallDependencies npm (rootDirOf cfg s) ?first True ?s0) = Inl e"
    obtain s1 where pm: "pmInstallDependencies npm (rootDirOf cfg s) ?first True ?s0 = (Inl e, s1)"
      using f by (cases "pmInstallDependencies npm (rootDirOf cfg s) ?first True ?s0") auto
    obtain rest where rc: "runtimeCalls cfg = (?first, True) # rest"
      by (simp add: runtimeCalls_def)
    from pm rc have r: "installDependencies npm cfg s = (Inl e, s1)"
      by (simp add: installDependencies_def)
    have a: "spawnArgs ?first True
        = [''install'', ''--save-dev'', ''express'', ''cors'', ''dotenv'', ''helmet'', ''morgan'']"
      by (simp add: spawnArgs_def packagesOf_def)
    from pm_children [of npm "rootDirOf cfg s" ?first True ?s0] pm a
    have "map fst (children s1) = map fst (children s)
        @ [[''install'', ''--save-dev'', ''express'', ''cors'', ''dotenv'', ''helmet'', ''morgan'']]"
      by (simp add: logger_children)
    with r show "fst (installDependencies npm cfg s) = Inl e
        \<and> map fst (children (snd (installDependencies npm cfg s)))
            = map fst (children s)
              @ [[''install'', ''--save-dev'', ''express'', ''cors'', ''dotenv'', ''helmet'',
                  ''morgan'']]"
      by simp
  qed
  from calls_bounds [of cfg] calls_two [of cfg] b c show ?thesis by blast
qed

theorem C7_install_invocations_witness:
  "children (snd (installDependencies (\<lambda>d a. [Close 0]) demo emptyDisk))
     = [([''install'', ''--save-dev'', ''express'', ''cors'', ''dotenv'', ''helmet'', ''morgan''],
         False),
        ([''install'', ''--save-dev'', ''nodemon''], False)]
   \<and> fst (installDependencies (\<lambda>d a. [StderrData ''boom'', Close 1]) demo emptyDisk)
       = Inl (PackageInstallationFailed ''boom'')
   \<and> map fst (children (snd (installDependencies (\<lambda>d a. [StderrData ''boom'', Close 1]) demo
         emptyDisk)))
       = [[''install'', ''--save-dev'', ''express'', ''cors'', ''dotenv'', ''helmet'', ''morgan'']]"
proof -
  let ?ok = "\<lambda>(d::string) (a::string list). [Close 0]"
  let ?bad = "\<lambda>(d::string) (a::string list). [StderrData ''boom'', Close 1]"
  have f: "fst (installDependencies ?ok demo emptyDisk) = Inr ()" by code_simp
  then have h1: "installDependencies ?ok demo emptyDisk
      = (Inr (), snd (installDependencies ?ok demo emptyDisk))"
    by (metis prod.collapse)
  have cs: "runtimeCalls demo @ devCalls demo
      = [(Many [''express'', ''cors'', ''dotenv'', ''helmet'', ''morgan''], True),
         (One ''nodemon'', True)]"
    by code_simp
  have e: "children emptyDisk = []" by (simp add: emptyDisk_def)
  from C7_install_invocations [of demo ?ok emptyDisk "()" "snd (installDependencies ?ok demo emptyDisk)"]
    h1 cs e
  have r1: "children (snd (installDependencies ?ok demo emptyDisk))
     = [([''install'', ''--save-dev'', ''express'', ''cors'', ''dotenv'', ''helmet'', ''morgan''],
         False),
        ([''install'', ''--save-dev'', ''nodemon''], False)]"
    by (simp add: spawnArgs_def packagesOf_def)
  have h2: "fst (pmInstallDependencies ?bad (rootDirOf demo emptyDisk)
              (Many [''express'', ''cors'', ''dotenv'', ''helmet'', ''morgan'']) True
              (logger INFO InstallingDependencies emptyDisk)) = Inl (PackageInstallationFailed ''boom'')"
    by code_simp
  from C7_install_invocations [of demo ?bad emptyDisk _ _ "PackageInstallationFailed ''boom''"] h2 e
  have r2: "fst (installDependencies ?bad demo emptyDisk) = Inl (PackageInstallationFailed ''boom'')
   \<and> map fst (children (snd (installDependencies ?bad demo emptyDisk)))
       = [[''install'', ''--save-dev'', ''express'', ''cors'', ''dotenv'', ''helmet'', ''morgan'']]"
    by simp
  from r1 r2 show ?thesis by simp
qed

text \<open>
  C7 as stated fails: with the EJS template engine selected there are three invocations.
\<close>

theorem C7_counterexample:
  "map fst (children (snd (installDependencies (\<lambda>d a. [Close 0])
      (demo\<lparr>useEjs := ''EJS (Dynamic)''\<rparr>) emptyDisk)))
   = [[''install'', ''--save-dev'', ''express'', ''cors'', ''dotenv'', ''helmet'', ''morgan''],
      [''install'', ''ejs''],
      [''install'', ''--save-dev'', ''nodemon'']]"
  by code_simp

section \<open>Directory creation\<close>

lemma lookup_Cons_Dir:
  "lookup t k = Some Dir \<Longrightarrow> lookup ((q, Dir) # t) k = Some Dir"
  by (auto simp: lookup_def split: if_splits)

lemma mkdirs_success:
  "mkdirs dn qs t = (None, t') \<Longrightarrow>
     (\<forall>q \<in> set qs. lookup t' q = Some Dir) \<and> (\<forall>k. lookup t k = Some Dir \<longrightarrow> lookup t' k = Some Dir)"
proof (induction qs arbitrary: t)
  case Nil
  then show ?case by simp
next
  case (Cons q qs)
  show ?case
  proof (cases "lookup t q")
    case None
    with Cons.prems have nd: "q \<notin> set dn" and rest: "mkdirs dn qs ((q, Dir) # t) = (None, t')"
      by (auto split: if_splits)
    from Cons.IH [OF rest] have ih: "\<forall>q' \<in> set qs. lookup t' q' = Some Dir"
      "\<forall>k. lookup ((q, Dir) # t) k = Some Dir \<longrightarrow> lookup t' k = Some Dir" by auto
    have "lookup ((q, Dir) # t) q = Some Dir" by (simp add: lookup_def)
    with ih have "lookup t' q = Some Dir" by blast
    moreover from ih lookup_Cons_Dir
    have "\<forall>k. lookup t k = Some Dir \<longrightarrow> lookup t' k = Some Dir" by blast
    ultimately show ?thesis using ih by simp
  next
    case (Some n)
    with Cons.prems have n: "n = Dir" and rest: "mkdirs dn qs t = (None, t')"
      by (cases n; simp)+
    from Cons.IH [OF rest] Some n show ?thesis by simp
  qed
qed

lemma self_in_prefixes: "segs \<noteq> [] \<Longrightarrow> segs \<in> set (prefixes segs)"
proof -
  assume "segs \<noteq> []"
  then have "length segs \<in> set [1 ..< Suc (length segs)]" by (cases segs) auto
  then have "take (length segs) segs \<in> set (prefixes segs)"
    unfolding prefixes_def by (metis (no_types, lifting) image_eqI set_map)
  then show ?thesis by simp
qed

lemma mkdirSync_success:
  assumes "mkdirSync p r s = (None, s1)"
  shows "p \<noteq> [] \<and> lookup (tree s1) (resolve (cwd s) p) = Some Dir \<and> cwd s1 = cwd s
    \<and> createdDirs s1 = createdDirs s \<and> createdFiles s1 = createdFiles s"
proof (cases r)
  case True
  obtain e t where m: "mkdirs (denied s) (prefixes (resolve (cwd s) p)) (tree s) = (e, t)"
    by (cases "mkdirs (denied s) (prefixes (resolve (cwd s) p)) (tree s)")
  from assms True m have p: "p \<noteq> []" and e: "e = None" and s1: "s1 = s\<lparr>tree := t\<rparr>"
    by (auto simp: mkdirSync_def Let_def split: if_splits)
  have "lookup t (resolve (cwd s) p) = Some Dir"
  proof (cases "resolve (cwd s) p = []")
    case True
    then show ?thesis by (simp add: lookup_def)
  next
    case False
    with mkdirs_success m e self_in_prefixes show ?thesis by blast
  qed
  with p s1 show ?thesis by simp
next
  case False
  with assms show ?thesis
    by (auto simp: mkdirSync_def Let_def lookup_def split: if_splits option.splits node.splits)
qed

lemma existsSync_Dir:
  "p \<noteq> [] \<Longrightarrow> lookup (tree s) (resolve (cwd s) p) = Some Dir \<Longrightarrow> existsSync s p"
  by (simp add: existsSync_def lstat_def)

text \<open>
  C5, as amended. When a call of \<open>createDirectory\<close> succeeds, a second call on the same
  path succeeds too and changes nothing. The first call appends the sanitized path to the
  ledger if the directory did not exist, and nothing if it did; so the two calls together
  append exactly one entry for a new directory, and none for one that was there before.
\<close>

theorem C5_createDirectory_twice:
  assumes "createDirectory p r s = (Inr b, s1)"
  shows "b = True \<and> createDirectory p r s1 = (Inr True, s1)
    \<and> (\<exists>q. sanitizePath p = Inr q
          \<and> createdDirs s1 = (if existsSync s q then createdDirs s else createdDirs s @ [q]))"
proof -
  from assms obtain q where q: "sanitizePath p = Inr q"
    by (cases "sanitizePath p") (auto simp: createDirectory_def)
  from q have qn: "q \<noteq> []" using normalize_not_Nil
    by (auto simp: sanitizePath_def Let_def split: if_splits)
  show ?thesis
  proof (cases "existsSync s q")
    case True
    with assms q have "b = True" "s1 = s" by (simp_all add: createDirectory_def)
    with True q show ?thesis by (simp add: createDirectory_def)
  next
    case False
    obtain e s0 where m: "mkdirSync q r s = (e, s0)" by (cases "mkdirSync q r s")
    from assms q False m have e: "e = None" and b: "b = True"
      and s1: "s1 = logger DEBUG (CreatedDirectory q) (s0\<lparr>createdDirs := createdDirs s0 @ [q]\<rparr>)"
      by (cases e; simp add: createDirectory_def)+
    from mkdirSync_success m e
    have ok: "lookup (tree s0) (resolve (cwd s) q) = Some Dir" "cwd s0 = cwd s"
      "createdDirs s0 = createdDirs s"
      by blast+
    from ok s1 qn have "existsSync s1 q"
      by (intro existsSync_Dir) (simp_all add: logger_def)
    with q have "createDirectory p r s1 = (Inr True, s1)" by (simp add: createDirectory_def)
    with b q False ok s1 show ?thesis by (simp add: logger_def)
  qed
qed

theorem C5_createDirectory_twice_witness:
  "fst (createDirectory ''/w/a/b'' True emptyDisk) = Inr True
   \<and> createDirectory ''/w/a/b'' True (snd (createDirectory ''/w/a/b'' True emptyDisk))
       = (Inr True, snd (createDirectory ''/w/a/b'' True emptyDisk))
   \<and> createdDirs (snd (createDirectory ''/w/a/b'' True emptyDisk)) = [''/w/a/b'']"
proof -
  have f: "fst (createDirectory ''/w/a/b'' True emptyDisk) = Inr True" by code_simp
  then have h: "createDirectory ''/w/a/b'' True emptyDisk
      = (Inr True, snd (createDirectory ''/w/a/b'' True emptyDisk))"
    by (metis prod.collapse)
  have q: "sanitizePath ''/w/a/b'' = Inr ''/w/a/b''" by code_simp
  have n: "\<not> existsSync emptyDisk ''/w/a/b''" by code_simp
  have l: "createdDirs emptyDisk = []" by (simp add: emptyDisk_def)
  from C5_createDirectory_twice [OF h] q n l f show ?thesis by auto
qed

text \<open>
  C5 as stated fails: \<open>/w\<close> exists already, both calls succeed and the ledger stays empty;
  and on \<open>../x\<close> the call fails.
\<close>

theorem C5_counterexample:
  "fst (createDirectory ''/w'' True emptyDisk) = Inr True
   \<and> fst (createDirectory ''/w'' True (snd (createDirectory ''/w'' True emptyDisk))) = Inr True
   \<and> createdDirs (snd (createDirectory ''/w'' True (snd (createDirectory ''/w'' True emptyDisk))))
       = []
   \<and> fst (createDirectory ''../x'' True emptyDisk)
       = Inl (DirectoryCreationFailed PathTraversalDetected)"
  by code_simp

section \<open>The pipeline\<close>

lemma generate_success:
  assumes "createStructure cfg (logger INFO StartingProjectGeneration s) = (Inr u1, s1)"
    and "generateFiles cfg s1 = (Inr u2, s2)"
    and "installDependencies npm cfg s2 = (Inr u3, s3)"
  shows "generate npm git cfg s
    = (Inr True, logger SUCCESS ProjectGenerated (snd (postGeneration git cfg s3)))"
proof -
  obtain r4 s4 where p: "postGeneration git cfg s3 = (r4, s4)"
    by (cases "postGeneration git cfg s3")
  then have "r4 = Inr ()" by (auto simp: postGeneration_def Let_def split: if_splits)
  with assms p show ?thesis by (simp add: generate_def)
qed

lemma generate_install_failure:
  assumes "createStructure cfg (logger INFO StartingProjectGeneration s) = (Inr u1, s1)"
    and "generateFiles cfg s1 = (Inr u2, s2)"
    and "installDependencies npm cfg s2 = (Inl e, s3)"
  shows "generate npm git cfg s = (Inl e, rollback (logger ERROR ProjectGenerationFailed s3))"
  using assms by (simp add: generate_def failGeneration_def)

text \<open>
  C8. When the three stages before it have succeeded and version-control initialization
  is enabled, a failing \<open>git init\<close> leaves \<open>generate\<close> successful: the result is \<open>true\<close>,
  and the final state is the state after the installation with three lines added to the
  log, among them the warning. There is no rollback: disk and ledger are as the three
  stages left them.
\<close>

theorem C8_git_failure_is_advisory:
  assumes "createStructure cfg (logger INFO StartingProjectGeneration s) = (Inr u1, s1)"
    and "generateFiles cfg s1 = (Inr u2, s2)"
    and "installDependencies npm cfg s2 = (Inr u3, s3)"
    and "initGit cfg"
    and "\<not> git (rootDirOf cfg s3)"
  shows "generate npm git cfg s
    = (Inr True,
       s3\<lparr>logs := logs s3 @ [(INFO, RunningPostGenerationTasks),
                              (WARN, CouldNotInitializeGitRepository),
                              (SUCCESS, ProjectGenerated)]\<rparr>)"
proof -
  have "rootDirOf cfg (logger INFO RunningPostGenerationTasks s3) = rootDirOf cfg s3"
    by (simp add: rootDirOf_def logger_def)
  with assms(4,5) have "postGeneration git cfg s3
      = (Inr (), logger WARN CouldNotInitializeGitRepository
                   (logger INFO RunningPostGenerationTasks s3))"
    by (simp add: postGeneration_def Let_def)
  with generate_success [OF assms(1-3), of git] show ?thesis
    by (simp add: logger_def)
qed

theorem C8_git_failure_is_advisory_witness:
  "fst (generate (\<lambda>d a. [Close 0]) (\<lambda>d. False) (demo\<lparr>initGit := True\<rparr>) emptyDisk) = Inr True
   \<and> (WARN, CouldNotInitializeGitRepository)
       \<in> set (logs (snd (generate (\<lambda>d a. [Close 0]) (\<lambda>d. False) (demo\<lparr>initGit := True\<rparr>) emptyDisk)))
   \<and> (WARN, RollingBack)
       \<notin> set (logs (snd (generate (\<lambda>d a. [Close 0]) (\<lambda>d. False) (demo\<lparr>initGit := True\<rparr>) emptyDisk)))
   \<and> map fst (tree (snd (generate (\<lambda>d a. [Close 0]) (\<lambda>d. False) (demo\<lparr>initGit := True\<rparr>) emptyDisk)))
       = [[''w'', ''demo'', ''public'', ''js'', ''main.js''],
          [''w'', ''demo'', ''public'', ''css'', ''style.css''],
          [''w'', ''demo'', ''public'', ''index.html''],
          [''w'', ''demo'', ''src'', ''routes'', ''index.js''],
          [''w'', ''demo'', ''README.md''],
          [''w'', ''demo'', ''.gitignore''],
          [''w'', ''demo'', ''.env.example''],
          [''w'', ''demo'', ''.env''],
          [''w'', ''demo'', ''package.json''],
          [''w'', ''demo'', ''src'', ''server.js''],
          [''w'', ''demo'', ''src'', ''app.js''],
          [''w'', ''demo'', ''logs''], [''w'', ''demo'', ''tests''],
          [''w'', ''demo'', ''public'', ''uploads''],
          [''w'', ''demo'', ''public'', ''images''],
          [''w'', ''demo'', ''public'', ''js''],
          [''w'', ''demo'', ''public'', ''css''],
          [''w'', ''demo'', ''public''],
          [''w'', ''demo'', ''src'', ''config''],
          [''w'', ''demo'', ''src'', ''utils''],
          [''w'', ''demo'', ''src'', ''middleware''],
          [''w'', ''demo'', ''src'', ''routes''],
          [''w'', ''demo'', ''src'', ''services''],
          [''w'', ''demo'', ''src''], [''w'', ''demo''], [''w'']]"
proof -
  let ?npm = "\<lambda>(d::string) (a::string list). [Close 0]"
  let ?git = "\<lambda>d::string. False"
  let ?cfg = "demo\<lparr>initGit := True\<rparr>"
  define s1 where "s1 = snd (createStructure ?cfg (logger INFO StartingProjectGeneration emptyDisk))"
  define s2 where "s2 = snd (generateFiles ?cfg s1)"
  define s3 where "s3 = snd (installDependencies ?npm ?cfg s2)"
  have "fst (createStructure ?cfg (logger INFO StartingProjectGeneration emptyDisk)) = Inr ()"
    by code_simp
  then have e1: "createStructure ?cfg (logger INFO StartingProjectGeneration emptyDisk) = (Inr (), s1)"
    unfolding s1_def by (metis prod.collapse)
  have "fst (generateFiles ?cfg s1) = Inr ()" unfolding s1_def by code_simp
  then have e2: "generateFiles ?cfg s1 = (Inr (), s2)"
    unfolding s2_def by (metis prod.collapse)
  have "fst (installDependencies ?npm ?cfg s2) = Inr ()" unfolding s2_def s1_def by code_simp
  then have e3: "installDependencies ?npm ?cfg s2 = (Inr (), s3)"
    unfolding s3_def by (metis prod.collapse)
  have g: "initGit ?cfg" by simp
  have ng: "\<not> ?git (rootDirOf ?cfg s3)" by simp
  have l3: "(WARN, RollingBack) \<notin> set (logs s3)" unfolding s3_def s2_def s1_def by code_simp
  have t3: "map fst (tree s3)
       = [[''w'', ''demo'', ''public'', ''js'', ''main.js''],
          [''w'', ''demo'', ''public'', ''css'', ''style.css''],
          [''w'', ''demo'', ''public'', ''index.html''],
          [''w'', ''demo'', ''src'', ''routes'', ''index.js''],
          [''w'', ''demo'', ''README.md''],
          [''w'', ''demo'', ''.gitignore''],
          [''w'', ''demo'', ''.env.example''],
          [''w'', ''demo'', ''.env''],
          [''w'', ''demo'', ''package.json''],
          [''w'', ''demo'', ''src'', ''server.js''],
          [''w'', ''demo'', ''src'', ''app.js''],
          [''w'', ''demo'', ''logs''], [''w'', ''demo'', ''tests''],
          [''w'', ''demo'', ''public'', ''uploads''],
          [''w'', ''demo'', ''public'', ''images''],
          [''w'', ''demo'', ''public'', ''js''],
          [''w'', ''demo'', ''public'', ''css''],
          [''w'', ''demo'', ''public''],
          [''w'', ''demo'', ''src'', ''config''],
          [''w'', ''demo'', ''src'', ''utils''],
          [''w'', ''demo'', ''src'', ''middleware''],
          [''w'', ''demo'', ''src'', ''routes''],
          [''w'', ''demo'', ''src'', ''services''],
          [''w'', ''demo'', ''src''], [''w'', ''demo''], [''w'']]"
    unfolding s3_def s2_def s1_def by code_simp
  from C8_git_failure_is_advisory [OF e1 e2 e3 g ng] l3 t3 show ?thesis by simp
qed

section \<open>The ledger\<close>

lemma mkdirSync_ledger:
  "createdFiles (snd (mkdirSync p r s)) = createdFiles s
   \<and> createdDirs (snd (mkdirSync p r s)) = createdDirs s"
  by (auto simp: mkdirSync_def Let_def split: prod.splits option.splits node.splits)

lemma writeFileSync_ledger:
  "createdFiles (snd (writeFileSync p c s)) = createdFiles s
   \<and> createdDirs (snd (writeFileSync p c s)) = createdDirs s"
  by (auto simp: writeFileSync_def Let_def split: option.splits node.splits)

lemma awaitInstall_ledger:
  "createdFiles (snd (snd (awaitInstall es i s))) = createdFiles s
   \<and> createdDirs (snd (snd (awaitInstall es i s))) = createdDirs s"
proof (induction es arbitrary: i s)
  case Nil
  then show ?case by (simp add: onTimeout_def)
next
  case (Cons e es)
  then show ?case by (cases e) (simp_all add: logger_def)
qed

lemma rollback_ledger:
  "createdFiles (rollback s) = rev (createdFiles s) \<and> createdDirs (rollback s) = rev (createdDirs s)"
proof -
  obtain n2 s2 n3 s3 where
    f: "rollbackFiles (rev (createdFiles s))
       (0, (logger WARN RollingBack s)\<lparr>createdFiles := rev (createdFiles s)\<rparr>) = (n2, s2)"
    and g: "rollbackDirs (rev (createdDirs s)) (n2, s2\<lparr>createdDirs := rev (createdDirs s)\<rparr>) = (n3, s3)"
    and r: "rollbackSweep s = (n3, s3)"
    by (rule rollbackSweep_unfold)
  from rollbackFiles_frame [OF f] have "createdFiles s2 = rev (createdFiles s)" by simp
  with rollbackDirs_frame [OF g]
  have "createdFiles s3 = rev (createdFiles s)" "createdDirs s3 = rev (createdDirs s)"
    by simp_all
  with r show ?thesis by (simp add: rollback_def logger_def)
qed

lemma filesLogged_append: "filesLogged (a @ b) = filesLogged a @ filesLogged b"
  by (induction a rule: filesLogged.induct) simp_all

lemma dirsLogged_append: "dirsLogged (a @ b) = dirsLogged a @ dirsLogged b"
  by (induction a rule: dirsLogged.induct) simp_all

lemma recorded_refl: "recorded s s"
  by (simp add: recorded_def newLines_def)

lemma recorded_trans:
  assumes "recorded s s1" and "recorded s1 s2"
  shows "recorded s s2"
proof -
  from assms have a: "logs s1 = logs s @ newLines s s1" and b: "logs s2 = logs s1 @ newLines s1 s2"
    by (simp_all add: recorded_def)
  from newLines_chain [OF a b] have ch: "newLines s s2 = newLines s s1 @ newLines s1 s2" .
  from a b ch have "logs s2 = logs s @ newLines s s2" by simp
  with assms ch show ?thesis
    by (simp add: recorded_def filesLogged_append dirsLogged_append)
qed

text \<open>A state that differs in neither the log nor the ledger.\<close>

lemma recorded_same:
  "logs s' = logs s \<Longrightarrow> createdFiles s' = createdFiles s \<Longrightarrow> createdDirs s' = createdDirs s
    \<Longrightarrow> recorded s s'"
  by (simp add: recorded_def newLines_def)

text \<open>A line of the log that reports no creation.\<close>

lemma recorded_logger:
  "filesLogged [(l, m)] = [] \<Longrightarrow> dirsLogged [(l, m)] = [] \<Longrightarrow> recorded s (logger l m s)"
  by (simp add: recorded_def newLines_def logger_def)

lemma recorded_then_logger:
  assumes "recorded s s1" and "filesLogged [(l, m)] = []" and "dirsLogged [(l, m)] = []"
  shows "recorded s (logger l m s1)"
  using assms(1) recorded_logger [OF assms(2,3)] by (rule recorded_trans)

lemma mkdirSync_logs: "logs (snd (mkdirSync p r s)) = logs s"
  by (auto simp: mkdirSync_def Let_def split: prod.splits option.splits node.splits)

lemma writeFileSync_logs: "logs (snd (writeFileSync p c s)) = logs s"
  by (auto simp: writeFileSync_def Let_def split: option.splits node.splits)

lemma createDirectory_recorded: "recorded s (snd (createDirectory p r s))"
proof (cases "sanitizePath p")
  case (Inl e)
  then show ?thesis by (simp add: createDirectory_def recorded_logger)
next
  case (Inr q)
  show ?thesis
  proof (cases "existsSync s q")
    case True
    with Inr show ?thesis by (simp add: createDirectory_def recorded_refl)
  next
    case False
    obtain e s0 where m: "mkdirSync q r s = (e, s0)" by (cases "mkdirSync q r s")
    from mkdirSync_ledger [of q r s] mkdirSync_logs [of q r s] m
    have l: "createdFiles s0 = createdFiles s" "createdDirs s0 = createdDirs s" "logs s0 = logs s"
      by simp_all
    from Inr False m have "snd (createDirectory p r s) = logger ERROR (FailedToCreateDirectory p) s0
        \<or> snd (createDirectory p r s)
            = logger DEBUG (CreatedDirectory q) (s0\<lparr>createdDirs := createdDirs s0 @ [q]\<rparr>)"
      by (cases e) (simp_all add: createDirectory_def)
    with l show ?thesis by (auto simp: recorded_def newLines_def logger_def)
  qed
qed

lemma writeFile_recorded: "recorded s (snd (writeFile p c s))"
proof (cases "sanitizePath p")
  case (Inl e)
  then show ?thesis by (simp add: writeFile_def recorded_logger)
next
  case (Inr q)
  let ?d = "if \<not> existsSync s (dirname q) then createDirectory (dirname q) True s else (Inr True, s)"
  obtain r1 s1 where d: "?d = (r1, s1)" by (cases ?d)
  have k1: "recorded s s1"
    using d createDirectory_recorded [of s "dirname q" True]
    by (auto simp: recorded_refl split: if_splits)
  show ?thesis
  proof (cases r1)
    case (Inl e)
    with Inr d have "snd (writeFile p c s) = logger ERROR (FailedToWriteFile p) s1"
      by (simp add: writeFile_def)
    with recorded_then_logger [OF k1, of ERROR "FailedToWriteFile p"] show ?thesis by simp
  next
    case r1: (Inr b)
    obtain e s2 where w: "writeFileSync q c s1 = (e, s2)" by (cases "writeFileSync q c s1")
    from writeFileSync_ledger [of q c s1] writeFileSync_logs [of q c s1] w
    have l2: "createdFiles s2 = createdFiles s1" "createdDirs s2 = createdDirs s1"
      "logs s2 = logs s1" by simp_all
    from Inr d r1 w have "snd (writeFile p c s) = logger ERROR (FailedToWriteFile p) s2
        \<or> snd (writeFile p c s)
            = logger DEBUG (CreatedFile q) (s2\<lparr>createdFiles := createdFiles s2 @ [q]\<rparr>)"
      by (cases e) (simp_all add: writeFile_def)
    with l2 have "recorded s1 (snd (writeFile p c s))"
      by (auto simp: recorded_def newLines_def logger_def)
    with k1 show ?thesis by (rule recorded_trans)
  qed
qed

lemma createDirectories_recorded: "recorded s (snd (createDirectories root dirs s))"
proof (induction dirs arbitrary: s)
  case Nil
  then show ?case by (simp add: recorded_refl)
next
  case (Cons d dirs)
  obtain r1 s1 where c: "createDirectory (join root d) True s = (r1, s1)"
    by (cases "createDirectory (join root d) True s")
  from createDirectory_recorded [of s "join root d" True] c have k: "recorded s s1" by simp
  show ?case
  proof (cases r1)
    case (Inl e)
    with c k show ?thesis by simp
  next
    case (Inr b)
    with c have "snd (createDirectories root (d # dirs) s) = snd (createDirectories root dirs s1)"
      by simp
    moreover from k Cons.IH [of s1] have "recorded s (snd (createDirectories root dirs s1))"
      by (rule recorded_trans)
    ultimately show ?thesis by simp
  qed
qed

lemma createStructure_recorded: "recorded s (snd (createStructure cfg s))"
proof -
  obtain r s1 where c: "createDirectories (rootDirOf cfg s) (structureDirs cfg) s = (r, s1)"
    by (cases "createDirectories (rootDirOf cfg s) (structureDirs cfg) s")
  from createDirectories_recorded [of s "rootDirOf cfg s" "structureDirs cfg"] c
  have k: "recorded s s1" by simp
  show ?thesis
  proof (cases r)
    case (Inl e)
    with c k show ?thesis by (simp add: createStructure_def)
  next
    case (Inr u)
    with c have "snd (createStructure cfg s)
        = logger SUCCESS (CreatedDirectories (length (structureDirs cfg))) s1"
      by (simp add: createStructure_def)
    with recorded_then_logger [OF k, of SUCCESS "CreatedDirectories (length (structureDirs cfg))"]
    show ?thesis by simp
  qed
qed

lemma writeFiles_recorded: "recorded s (snd (writeFiles files n s))"
proof (induction files arbitrary: n s)
  case Nil
  then show ?case by (simp add: recorded_refl)
next
  case (Cons f files)
  obtain p c where f: "f = (p, c)" by (cases f)
  obtain r1 s1 where w: "writeFile p c s = (r1, s1)" by (cases "writeFile p c s")
  from writeFile_recorded [of s p c] w have k: "recorded s s1" by simp
  show ?case
  proof (cases r1)
    case (Inl e)
    with f w k show ?thesis by simp
  next
    case (Inr b)
    with f w have "snd (writeFiles (f # files) n s) = snd (writeFiles files (Suc n) s1)"
      by simp
    moreover from k Cons.IH [of s1 "Suc n"] have "recorded s (snd (writeFiles files (Suc n) s1))"
      by (rule recorded_trans)
    ultimately show ?thesis by simp
  qed
qed

lemma generateFiles_recorded: "recorded s (snd (generateFiles cfg s))"
proof -
  let ?s0 = "logger INFO GeneratingProjectFiles s"
  obtain r s1 where w: "writeFiles (getFileTemplates cfg ?s0) 0 ?s0 = (r, s1)"
    by (cases "writeFiles (getFileTemplates cfg ?s0) 0 ?s0")
  have "recorded s ?s0" by (simp add: recorded_logger)
  moreover from writeFiles_recorded [of ?s0 "getFileTemplates cfg ?s0" 0] w
  have "recorded ?s0 s1" by simp
  ultimately have k: "recorded s s1" by (rule recorded_trans)
  show ?thesis
  proof (cases r)
    case (Inl e)
    with w k show ?thesis by (simp add: generateFiles_def Let_def)
  next
    case (Inr n)
    with w have "snd (generateFiles cfg s) = logger SUCCESS (GeneratedFiles n) s1"
      by (simp add: generateFiles_def Let_def)
    with recorded_then_logger [OF k, of SUCCESS "GeneratedFiles n"] show ?thesis by simp
  qed
qed

text \<open>The installation and the hook write to the log only, and nothing about a creation.\<close>

lemma awaitInstall_recorded: "recorded s (snd (snd (awaitInstall es i s)))"
proof (induction es arbitrary: i s)
  case Nil
  then show ?case by (simp add: onTimeout_def recorded_refl)
next
  case (Cons e es)
  show ?case
  proof (cases e)
    case (StdoutData d)
    with Cons.IH show ?thesis by simp
  next
    case (StderrData d)
    with Cons.IH show ?thesis by simp
  next
    case (Close code)
    then show ?thesis by (simp add: recorded_def newLines_def logger_def)
  next
    case ChildError
    then show ?thesis by (simp add: recorded_def newLines_def logger_def)
  qed
qed

lemma pmInstallDependencies_recorded:
  "recorded s (snd (pmInstallDependencies npm dir deps dev s))"
proof -
  let ?i0 = "\<lparr>packages = packagesOf deps, stdout = [], stderr = [],
                timerArmed = True, childRunning = True\<rparr>"
  let ?s0 = "logger INFO (Installing (packagesOf deps)) s"
  obtain r i1 s1 where aw: "awaitInstall (npm dir (spawnArgs deps dev)) ?i0 ?s0 = (r, i1, s1)"
    by (cases "awaitInstall (npm dir (spawnArgs deps dev)) ?i0 ?s0") auto
  have "recorded s ?s0" by (simp add: recorded_logger)
  moreover from awaitInstall_recorded [of ?s0 "npm dir (spawnArgs deps dev)" ?i0] aw
  have "recorded ?s0 s1" by simp
  ultimately have "recorded s s1" by (rule recorded_trans)
  moreover have "recorded s1 (s1\<lparr>children := children s1 @ [(spawnArgs deps dev, childRunning i1)]\<rparr>)"
    by (rule recorded_same) simp_all
  ultimately have "recorded s (s1\<lparr>children := children s1 @ [(spawnArgs deps dev, childRunning i1)]\<rparr>)"
    by (rule recorded_trans)
  with aw show ?thesis by (simp add: pmInstallDependencies_def Let_def)
qed

lemma installEach_recorded: "recorded s (snd (installEach npm dir calls s))"
proof (induction calls arbitrary: s)
  case Nil
  then show ?case by (simp add: recorded_refl)
next
  case (Cons c calls)
  obtain deps dev where c: "c = (deps, dev)" by (cases c)
  obtain r1 s1 where p: "pmInstallDependencies npm dir deps dev s = (r1, s1)"
    by (cases "pmInstallDependencies npm dir deps dev s")
  from pmInstallDependencies_recorded [of s npm dir deps dev] p have k: "recorded s s1" by simp
  show ?case
  proof (cases r1)
    case (Inl e)
    with c p k show ?thesis by simp
  next
    case (Inr u)
    with c p have "snd (installEach npm dir (c # calls) s) = snd (installEach npm dir calls s1)"
      by simp
    moreover from k Cons.IH [of s1] have "recorded s (snd (installEach npm dir calls s1))"
      by (rule recorded_trans)
    ultimately show ?thesis by simp
  qed
qed

lemma installDependencies_recorded: "recorded s (snd (installDependencies npm cfg s))"
proof -
  let ?s0 = "logger INFO InstallingDependencies s"
  obtain r1 s1 where a: "installEach npm (rootDirOf cfg s) (runtimeCalls cfg) ?s0 = (r1, s1)"
    by (cases "installEach npm (rootDirOf cfg s) (runtimeCalls cfg) ?s0")
  have "recorded s ?s0" by (simp add: recorded_logger)
  moreover from installEach_recorded [of ?s0 npm "rootDirOf cfg s" "runtimeCalls cfg"] a
  have "recorded ?s0 s1" by simp
  ultimately have k: "recorded s s1" by (rule recorded_trans)
  show ?thesis
  proof (cases r1)
    case (Inl e)
    with a k show ?thesis by (simp add: installDependencies_def)
  next
    case (Inr u)
    let ?s2 = "logger INFO InstallingDevDependencies s1"
    from Inr a have e: "snd (installDependencies npm cfg s)
        = snd (installEach npm (rootDirOf cfg s) (devCalls cfg) ?s2)"
      by (simp add: installDependencies_def)
    from recorded_then_logger [OF k, of INFO InstallingDevDependencies]
    have k2: "recorded s ?s2" by simp
    from k2 installEach_recorded [of ?s2 npm "rootDirOf cfg s" "devCalls cfg"]
    have "recorded s (snd (installEach npm (rootDirOf cfg s) (devCalls cfg) ?s2))"
      by (rule recorded_trans)
    with e show ?thesis by simp
  qed
qed

lemma postGeneration_recorded: "recorded s (snd (postGeneration git cfg s))"
  by (simp add: postGeneration_def Let_def recorded_def newLines_def logger_def)

lemma pmInstallDependencies_ledger:
  "createdFiles (snd (pmInstallDependencies npm dir deps dev s)) = createdFiles s
   \<and> createdDirs (snd (pmInstallDependencies npm dir deps dev s)) = createdDirs s"
proof -
  let ?i0 = "\<lparr>packages = packagesOf deps, stdout = [], stderr = [],
                timerArmed = True, childRunning = True\<rparr>"
  let ?s0 = "logger INFO (Installing (packagesOf deps)) s"
  obtain r i1 s1 where aw: "awaitInstall (npm dir (spawnArgs deps dev)) ?i0 ?s0 = (r, i1, s1)"
    by (cases "awaitInstall (npm dir (spawnArgs deps dev)) ?i0 ?s0") auto
  from awaitInstall_ledger [of "npm dir (spawnArgs deps dev)" ?i0 ?s0] aw
  have "createdFiles s1 = createdFiles s" "createdDirs s1 = createdDirs s"
    by (simp_all add: logger_def)
  with aw show ?thesis by (simp add: pmInstallDependencies_def Let_def)
qed

lemma installEach_ledger:
  "createdFiles (snd (installEach npm dir calls s)) = createdFiles s
   \<and> createdDirs (snd (installEach npm dir calls s)) = createdDirs s"
proof (induction calls arbitrary: s)
  case Nil
  then show ?case by simp
next
  case (Cons c calls)
  obtain deps dev where c: "c = (deps, dev)" by (cases c)
  obtain r1 s1 where p: "pmInstallDependencies npm dir deps dev s = (r1, s1)"
    by (cases "pmInstallDependencies npm dir deps dev s")
  from pmInstallDependencies_ledger [of npm dir deps dev s] p
  have k: "createdFiles s1 = createdFiles s" "createdDirs s1 = createdDirs s" by simp_all
  show ?case
  proof (cases r1)
    case (Inl e)
    with c p k show ?thesis by simp
  next
    case (Inr u)
    with c p have "snd (installEach npm dir (c # calls) s) = snd (installEach npm dir calls s1)"
      by simp
    with k Cons.IH [of s1] show ?thesis by simp
  qed
qed

lemma installDependencies_ledger:
  "createdFiles (snd (installDependencies npm cfg s)) = createdFiles s
   \<and> createdDirs (snd (installDependencies npm cfg s)) = createdDirs s"
proof -
  let ?s0 = "logger INFO InstallingDependencies s"
  obtain r1 s1 where a: "installEach npm (rootDirOf cfg s) (runtimeCalls cfg) ?s0 = (r1, s1)"
    by (cases "installEach npm (rootDirOf cfg s) (runtimeCalls cfg) ?s0")
  from installEach_ledger [of npm "rootDirOf cfg s" "runtimeCalls cfg" ?s0] a
  have k: "createdFiles s1 = createdFiles s" "createdDirs s1 = createdDirs s"
    by (simp_all add: logger_def)
  show ?thesis
  proof (cases r1)
    case (Inl e)
    with a k show ?thesis by (simp add: installDependencies_def)
  next
    case (Inr u)
    let ?s2 = "logger INFO InstallingDevDependencies s1"
    from Inr a have e: "snd (installDependencies npm cfg s)
        = snd (installEach npm (rootDirOf cfg s) (devCalls cfg) ?s2)"
      by (simp add: installDependencies_def)
    from installEach_ledger [of npm "rootDirOf cfg s" "devCalls cfg" ?s2] k e
    show ?thesis by (simp add: logger_def)
  qed
qed

lemma postGeneration_ledger:
  "createdFiles (snd (postGeneration git cfg s)) = createdFiles s
   \<and> createdDirs (snd (postGeneration git cfg s)) = createdDirs s"
  by (simp add: postGeneration_def Let_def logger_def)

text \<open>The lines of a rollback report no creation.\<close>

lemma rollbackFile_quiet:
  assumes "rollbackFile f (n, s) = (n', s')"
  shows "logs s' = logs s @ newLines s s' \<and> filesLogged (newLines s s') = []
    \<and> dirsLogged (newLines s s') = []"
  using rollbackFile_cases [OF assms] by (auto simp: newLines_def logger_def)

lemma rollbackDir_quiet:
  assumes "rollbackDir d (n, s) = (n', s')"
  shows "logs s' = logs s @ newLines s s' \<and> filesLogged (newLines s s') = []
    \<and> dirsLogged (newLines s s') = []"
  using rollbackDir_cases [OF assms] by (auto simp: newLines_def logger_def)

lemma quiet_chain:
  assumes "logs s1 = logs s @ newLines s s1 \<and> filesLogged (newLines s s1) = []
      \<and> dirsLogged (newLines s s1) = []"
    and "logs s2 = logs s1 @ newLines s1 s2 \<and> filesLogged (newLines s1 s2) = []
      \<and> dirsLogged (newLines s1 s2) = []"
  shows "logs s2 = logs s @ newLines s s2 \<and> filesLogged (newLines s s2) = []
      \<and> dirsLogged (newLines s s2) = []"
proof -
  from assms have a: "logs s1 = logs s @ newLines s s1" and b: "logs s2 = logs s1 @ newLines s1 s2"
    by simp_all
  from newLines_chain [OF a b] have ch: "newLines s s2 = newLines s s1 @ newLines s1 s2" .
  from a b ch have "logs s2 = logs s @ newLines s s2" by simp
  with assms ch show ?thesis by (simp add: filesLogged_append dirsLogged_append)
qed

lemma rollbackFiles_quiet:
  "rollbackFiles l (n, s) = (n', s') \<Longrightarrow>
     logs s' = logs s @ newLines s s' \<and> filesLogged (newLines s s') = []
     \<and> dirsLogged (newLines s s') = []"
proof (induction l arbitrary: n s)
  case Nil
  then show ?case by (simp add: newLines_def)
next
  case (Cons f l)
  obtain n1 s1 where st: "rollbackFile f (n, s) = (n1, s1)" by (cases "rollbackFile f (n, s)")
  with Cons.prems have rest: "rollbackFiles l (n1, s1) = (n', s')" by simp
  from rollbackFile_quiet [OF st] Cons.IH [OF rest] show ?case by (rule quiet_chain)
qed

lemma rollbackDirs_quiet:
  "rollbackDirs l (n, s) = (n', s') \<Longrightarrow>
     logs s' = logs s @ newLines s s' \<and> filesLogged (newLines s s') = []
     \<and> dirsLogged (newLines s s') = []"
proof (induction l arbitrary: n s)
  case Nil
  then show ?case by (simp add: newLines_def)
next
  case (Cons d l)
  obtain n1 s1 where st: "rollbackDir d (n, s) = (n1, s1)" by (cases "rollbackDir d (n, s)")
  with Cons.prems have rest: "rollbackDirs l (n1, s1) = (n', s')" by simp
  from rollbackDir_quiet [OF st] Cons.IH [OF rest] show ?case by (rule quiet_chain)
qed

lemma quiet_same:
  "logs s' = logs s \<Longrightarrow>
     logs s' = logs s @ newLines s s' \<and> filesLogged (newLines s s') = []
     \<and> dirsLogged (newLines s s') = []"
  by (simp add: newLines_def)

lemma quiet_logger:
  "filesLogged [(l, m)] = [] \<Longrightarrow> dirsLogged [(l, m)] = [] \<Longrightarrow>
     logs (logger l m s) = logs s @ newLines s (logger l m s)
     \<and> filesLogged (newLines s (logger l m s)) = []
     \<and> dirsLogged (newLines s (logger l m s)) = []"
  by (simp add: newLines_def logger_def)

lemma rollback_quiet:
  "logs (rollback s) = logs s @ newLines s (rollback s)
   \<and> filesLogged (newLines s (rollback s)) = [] \<and> dirsLogged (newLines s (rollback s)) = []"
proof -
  let ?s0 = "logger WARN RollingBack s"
  let ?s1 = "?s0\<lparr>createdFiles := rev (createdFiles s)\<rparr>"
  obtain n2 s2 n3 s3 where
    f: "rollbackFiles (rev (createdFiles s)) (0, ?s1) = (n2, s2)"
    and g: "rollbackDirs (rev (createdDirs s)) (n2, s2\<lparr>createdDirs := rev (createdDirs s)\<rparr>) = (n3, s3)"
    and r: "rollbackSweep s = (n3, s3)"
    by (rule rollbackSweep_unfold)
  let ?s2 = "s2\<lparr>createdDirs := rev (createdDirs s)\<rparr>"
  have q0: "logs ?s0 = logs s @ newLines s ?s0 \<and> filesLogged (newLines s ?s0) = []
      \<and> dirsLogged (newLines s ?s0) = []"
    by (rule quiet_logger) simp_all
  have q1: "logs ?s1 = logs ?s0 @ newLines ?s0 ?s1 \<and> filesLogged (newLines ?s0 ?s1) = []
      \<and> dirsLogged (newLines ?s0 ?s1) = []"
    by (rule quiet_same) simp
  have q2: "logs s2 = logs ?s1 @ newLines ?s1 s2 \<and> filesLogged (newLines ?s1 s2) = []
      \<and> dirsLogged (newLines ?s1 s2) = []"
    using f by (rule rollbackFiles_quiet)
  have q3: "logs ?s2 = logs s2 @ newLines s2 ?s2 \<and> filesLogged (newLines s2 ?s2) = []
      \<and> dirsLogged (newLines s2 ?s2) = []"
    by (rule quiet_same) simp
  have q4: "logs s3 = logs ?s2 @ newLines ?s2 s3 \<and> filesLogged (newLines ?s2 s3) = []
      \<and> dirsLogged (newLines ?s2 s3) = []"
    using g by (rule rollbackDirs_quiet)
  have q5: "logs (rollback s) = logs s3 @ newLines s3 (rollback s)
      \<and> filesLogged (newLines s3 (rollback s)) = []
      \<and> dirsLogged (newLines s3 (rollback s)) = []"
    using r by (simp add: rollback_def newLines_def logger_def)
  from q0 q1 have "logs ?s1 = logs s @ newLines s ?s1 \<and> filesLogged (newLines s ?s1) = []
      \<and> dirsLogged (newLines s ?s1) = []" by (rule quiet_chain)
  from this q2 have "logs s2 = logs s @ newLines s s2 \<and> filesLogged (newLines s s2) = []
      \<and> dirsLogged (newLines s s2) = []" by (rule quiet_chain)
  from this q3 have "logs ?s2 = logs s @ newLines s ?s2 \<and> filesLogged (newLines s ?s2) = []
      \<and> dirsLogged (newLines s ?s2) = []" by (rule quiet_chain)
  from this q4 have "logs s3 = logs s @ newLines s s3 \<and> filesLogged (newLines s s3) = []
      \<and> dirsLogged (newLines s s3) = []" by (rule quiet_chain)
  from this q5 show ?thesis by (rule quiet_chain)
qed

text \<open>The handler of \<open>generate\<close> after a stage that has failed in the state \<open>s'\<close>.\<close>

lemma failGeneration_recorded:
  assumes "recorded s s'"
  shows "logs (snd (failGeneration e s')) = logs s @ newLines s (snd (failGeneration e s'))
    \<and> createdFiles (snd (failGeneration e s'))
        = rev (createdFiles s @ filesLogged (newLines s (snd (failGeneration e s'))))
    \<and> createdDirs (snd (failGeneration e s'))
        = rev (createdDirs s @ dirsLogged (newLines s (snd (failGeneration e s'))))"
proof -
  let ?t = "logger ERROR ProjectGenerationFailed s'"
  let ?u = "rollback ?t"
  from assms have k: "recorded s ?t" by (rule recorded_then_logger) simp_all
  then have a: "logs ?t = logs s @ newLines s ?t" by (simp add: recorded_def)
  from rollback_quiet [of ?t] have b: "logs ?u = logs ?t @ newLines ?t ?u"
    and q: "filesLogged (newLines ?t ?u) = []" "dirsLogged (newLines ?t ?u) = []" by simp_all
  from newLines_chain [OF a b] have ch: "newLines s ?u = newLines s ?t @ newLines ?t ?u" .
  from a b ch have l: "logs ?u = logs s @ newLines s ?u" by simp
  from ch q have fl: "filesLogged (newLines s ?u) = filesLogged (newLines s ?t)"
    and dl: "dirsLogged (newLines s ?u) = dirsLogged (newLines s ?t)"
    by (simp_all add: filesLogged_append dirsLogged_append)
  from rollback_ledger [of ?t] k fl dl
  have "createdFiles ?u = rev (createdFiles s @ filesLogged (newLines s ?u))"
    "createdDirs ?u = rev (createdDirs s @ dirsLogged (newLines s ?u))"
    by (simp_all add: recorded_def)
  with l show ?thesis by (simp add: failGeneration_def)
qed

lemma generate_recorded:
  "(\<exists>b. fst (generate npm git cfg s) = Inr b \<and> recorded s (snd (generate npm git cfg s)))
   \<or> (\<exists>e s'. recorded s s' \<and> generate npm git cfg s = failGeneration e s')"
proof -
  let ?s0 = "logger INFO StartingProjectGeneration s"
  obtain r1 s1 where a: "createStructure cfg ?s0 = (r1, s1)" by (cases "createStructure cfg ?s0")
  have "recorded s ?s0" by (simp add: recorded_logger)
  moreover from createStructure_recorded [of ?s0 cfg] a have "recorded ?s0 s1" by simp
  ultimately have k1: "recorded s s1" by (rule recorded_trans)
  show ?thesis
  proof (cases r1)
    case (Inl e)
    with a have "generate npm git cfg s = failGeneration e s1" by (simp add: generate_def)
    with k1 show ?thesis by blast
  next
    case r1: (Inr u1)
    obtain r2 s2 where b: "generateFiles cfg s1 = (r2, s2)" by (cases "generateFiles cfg s1")
    from generateFiles_recorded [of s1 cfg] b have "recorded s1 s2" by simp
    with k1 have k2: "recorded s s2" by (rule recorded_trans)
    show ?thesis
    proof (cases r2)
      case (Inl e)
      with a r1 b have "generate npm git cfg s = failGeneration e s2" by (simp add: generate_def)
      with k2 show ?thesis by blast
    next
      case r2: (Inr u2)
      obtain r3 s3 where c: "installDependencies npm cfg s2 = (r3, s3)"
        by (cases "installDependencies npm cfg s2")
      from installDependencies_recorded [of s2 npm cfg] c have "recorded s2 s3" by simp
      with k2 have k3: "recorded s s3" by (rule recorded_trans)
      show ?thesis
      proof (cases r3)
        case (Inl e)
        with a r1 b r2 c have "generate npm git cfg s = failGeneration e s3"
          by (simp add: generate_def)
        with k3 show ?thesis by blast
      next
        case r3: (Inr u3)
        obtain r4 s4 where d: "postGeneration git cfg s3 = (r4, s4)"
          by (cases "postGeneration git cfg s3")
        from postGeneration_recorded [of s3 git cfg] d have "recorded s3 s4" by simp
        with k3 have k4: "recorded s s4" by (rule recorded_trans)
        show ?thesis
        proof (cases r4)
          case (Inl e)
          with a r1 b r2 c r3 d have "generate npm git cfg s = failGeneration e s4"
            by (simp add: generate_def)
          with k4 show ?thesis by blast
        next
          case (Inr u4)
          from k4 have "recorded s (logger SUCCESS ProjectGenerated s4)"
            by (rule recorded_then_logger) simp_all
          with a r1 b r2 c r3 d Inr show ?thesis by (auto simp: generate_def)
        qed
      qed
    qed
  qed
qed

lemma generate_ledger:
  "logs (snd (generate npm git cfg s)) = logs s @ newLines s (snd (generate npm git cfg s))
   \<and> (case fst (generate npm git cfg s) of
        Inr b \<Rightarrow>
          createdFiles (snd (generate npm git cfg s))
            = createdFiles s @ filesLogged (newLines s (snd (generate npm git cfg s)))
          \<and> createdDirs (snd (generate npm git cfg s))
            = createdDirs s @ dirsLogged (newLines s (snd (generate npm git cfg s)))
      | Inl e \<Rightarrow>
          createdFiles (snd (generate npm git cfg s))
            = rev (createdFiles s @ filesLogged (newLines s (snd (generate npm git cfg s))))
          \<and> createdDirs (snd (generate npm git cfg s))
            = rev (createdDirs s @ dirsLogged (newLines s (snd (generate npm git cfg s)))))"
proof -
  from generate_recorded [of npm git cfg s] show ?thesis
  proof
    assume "\<exists>b. fst (generate npm git cfg s) = Inr b \<and> recorded s (snd (generate npm git cfg s))"
    then show ?thesis by (auto simp: recorded_def)
  next
    assume "\<exists>e s'. recorded s s' \<and> generate npm git cfg s = failGeneration e s'"
    then obtain e s' where k: "recorded s s'" and g: "generate npm git cfg s = failGeneration e s'"
      by blast
    from g have "fst (generate npm git cfg s) = Inl e" by (simp add: failGeneration_def)
    with failGeneration_recorded [OF k, of e] g show ?thesis by simp
  qed
qed

text \<open>
  C9, as amended. The ledger is the pair of arrays of the one \<open>FileSystemManager\<close> that the
  application creates: empty at construction and never cleared. \<open>createDirectory\<close> and
  \<open>writeFile\<close> append to it exactly the paths that they report as created; the
  installation and the post-generation hook leave both arrays as they are; \<open>rollback\<close>
  reverses both in place and removes nothing. So when \<open>generate\<close> returns, the ledger is
  what it was at the call followed by every path that the call has reported as created:
  in that order after a success, in the reverse order after a failure. Nothing is dropped
  and nothing is consumed.
\<close>

theorem C9_ledger_persists:
  "createdFiles (newFileSystemManager s) = [] \<and> createdDirs (newFileSystemManager s) = []
   \<and> recorded s (snd (createDirectory p r s))
   \<and> recorded s (snd (writeFile p c s))
   \<and> createdFiles (snd (installDependencies npm cfg s)) = createdFiles s
   \<and> createdDirs (snd (installDependencies npm cfg s)) = createdDirs s
   \<and> createdFiles (snd (postGeneration git cfg s)) = createdFiles s
   \<and> createdDirs (snd (postGeneration git cfg s)) = createdDirs s
   \<and> createdFiles (rollback s) = rev (createdFiles s)
   \<and> createdDirs (rollback s) = rev (createdDirs s)
   \<and> logs (snd (generate npm git cfg s)) = logs s @ newLines s (snd (generate npm git cfg s))
   \<and> (case fst (generate npm git cfg s) of
        Inr b \<Rightarrow>
          createdFiles (snd (generate npm git cfg s))
            = createdFiles s @ filesLogged (newLines s (snd (generate npm git cfg s)))
          \<and> createdDirs (snd (generate npm git cfg s))
            = createdDirs s @ dirsLogged (newLines s (snd (generate npm git cfg s)))
      | Inl e \<Rightarrow>
          createdFiles (snd (generate npm git cfg s))
            = rev (createdFiles s @ filesLogged (newLines s (snd (generate npm git cfg s))))
          \<and> createdDirs (snd (generate npm git cfg s))
            = rev (createdDirs s @ dirsLogged (newLines s (snd (generate npm git cfg s)))))"
  using createDirectory_recorded [of s p r] writeFile_recorded [of s p c]
    installDependencies_ledger [of npm cfg s] postGeneration_ledger [of git cfg s]
    rollback_ledger [of s] generate_ledger [of npm git cfg s]
  by (simp add: newFileSystemManager_def)

text \<open>
  C9 as stated fails. After a successful run on an empty working directory the ledger
  holds the eleven directories and the eleven files of the run, which is what
  \<open>getCreatedStructure\<close> then reports. After a run in which the first installation fails
  and the rollback has deleted every one of them, the ledger holds the same twenty-two
  entries, in reverse order.
\<close>

theorem C9_counterexample:
  "fst (generate (\<lambda>d a. [Close 0]) (\<lambda>d. True) demo emptyDisk) = Inr True
   \<and> getCreatedStructure (snd (generate (\<lambda>d a. [Close 0]) (\<lambda>d. True) demo emptyDisk))
       = ([''/w/demo/src/app.js'', ''/w/demo/src/server.js'', ''/w/demo/package.json'',
           ''/w/demo/.env'', ''/w/demo/.env.example'', ''/w/demo/.gitignore'',
           ''/w/demo/README.md'', ''/w/demo/src/routes/index.js'', ''/w/demo/public/index.html'',
           ''/w/demo/public/css/style.css'', ''/w/demo/public/js/main.js''],
          [''/w/demo/src/services'', ''/w/demo/src/routes'', ''/w/demo/src/middleware'',
           ''/w/demo/src/utils'', ''/w/demo/src/config'', ''/w/demo/public/css'',
           ''/w/demo/public/js'', ''/w/demo/public/images'', ''/w/demo/public/uploads'',
           ''/w/demo/tests'', ''/w/demo/logs''],
          11, 11)
   \<and> fst (generate (\<lambda>d a. [StderrData ''boom'', Close 1]) (\<lambda>d. True) demo emptyDisk)
       = Inl (PackageInstallationFailed ''boom'')
   \<and> getCreatedStructure
        (snd (generate (\<lambda>d a. [StderrData ''boom'', Close 1]) (\<lambda>d. True) demo emptyDisk))
       = ([''/w/demo/public/js/main.js'', ''/w/demo/public/css/style.css'',
           ''/w/demo/public/index.html'', ''/w/demo/src/routes/index.js'', ''/w/demo/README.md'',
           ''/w/demo/.gitignore'', ''/w/demo/.env.example'', ''/w/demo/.env'',
           ''/w/demo/package.json'', ''/w/demo/src/server.js'', ''/w/demo/src/app.js''],
          [''/w/demo/logs'', ''/w/demo/tests'', ''/w/demo/public/uploads'',
           ''/w/demo/public/images'', ''/w/demo/public/js'', ''/w/demo/public/css'',
           ''/w/demo/src/config'', ''/w/demo/src/utils'', ''/w/demo/src/middleware'',
           ''/w/demo/src/routes'', ''/w/demo/src/services''],
          11, 11)"
proof -
  let ?npm = "\<lambda>(d::string) (a::string list). [Close 0]"
  let ?bad = "\<lambda>(d::string) (a::string list). [StderrData ''boom'', Close 1]"
  let ?git = "\<lambda>d::string. True"
  define s1 where "s1 = snd (createStructure demo (logger INFO StartingProjectGeneration emptyDisk))"
  define s2 where "s2 = snd (generateFiles demo s1)"
  define s3 where "s3 = snd (installDependencies ?npm demo s2)"
  define t3 where "t3 = snd (installDependencies ?bad demo s2)"
  have "fst (createStructure demo (logger INFO StartingProjectGeneration emptyDisk)) = Inr ()"
    by code_simp
  then have e1: "createStructure demo (logger INFO StartingProjectGeneration emptyDisk) = (Inr (), s1)"
    unfolding s1_def by (metis prod.collapse)
  have "fst (generateFiles demo s1) = Inr ()" unfolding s1_def by code_simp
  then have e2: "generateFiles demo s1 = (Inr (), s2)"
    unfolding s2_def by (metis prod.collapse)
  have "fst (installDependencies ?npm demo s2) = Inr ()" unfolding s2_def s1_def by code_simp
  then have e3: "installDependencies ?npm demo s2 = (Inr (), s3)"
    unfolding s3_def by (metis prod.collapse)
  have "fst (installDependencies ?bad demo s2) = Inl (PackageInstallationFailed ''boom'')"
    unfolding s2_def s1_def by code_simp
  then have f3: "installDependencies ?bad demo s2 = (Inl (PackageInstallationFailed ''boom''), t3)"
    unfolding t3_def by (metis prod.collapse)
  have l: "getCreatedStructure (logger SUCCESS ProjectGenerated (snd (postGeneration ?git demo s3)))
       = ([''/w/demo/src/app.js'', ''/w/demo/src/server.js'', ''/w/demo/package.json'',
           ''/w/demo/.env'', ''/w/demo/.env.example'', ''/w/demo/.gitignore'',
           ''/w/demo/README.md'', ''/w/demo/src/routes/index.js'', ''/w/demo/public/index.html'',
           ''/w/demo/public/css/style.css'', ''/w/demo/public/js/main.js''],
          [''/w/demo/src/services'', ''/w/demo/src/routes'', ''/w/demo/src/middleware'',
           ''/w/demo/src/utils'', ''/w/demo/src/config'', ''/w/demo/public/css'',
           ''/w/demo/public/js'', ''/w/demo/public/images'', ''/w/demo/public/uploads'',
           ''/w/demo/tests'', ''/w/demo/logs''],
          11, 11)"
    unfolding s3_def s2_def s1_def by code_simp
  have k: "getCreatedStructure (rollback (logger ERROR ProjectGenerationFailed t3))
       = ([''/w/demo/public/js/main.js'', ''/w/demo/public/css/style.css'',
           ''/w/demo/public/index.html'', ''/w/demo/src/routes/index.js'', ''/w/demo/README.md'',
           ''/w/demo/.gitignore'', ''/w/demo/.env.example'', ''/w/demo/.env'',
           ''/w/demo/package.json'', ''/w/demo/src/server.js'', ''/w/demo/src/app.js''],
          [''/w/demo/logs'', ''/w/demo/tests'', ''/w/demo/public/uploads'',
           ''/w/demo/public/images'', ''/w/demo/public/js'', ''/w/demo/public/css'',
           ''/w/demo/src/config'', ''/w/demo/src/utils'', ''/w/demo/src/middleware'',
           ''/w/demo/src/routes'', ''/w/demo/src/services''],
          11, 11)"
    unfolding t3_def s2_def s1_def by code_simp
  from generate_success [OF e1 e2 e3, of ?git] generate_install_failure [OF e1 e2 f3, of ?git] l k
  show ?thesis by simp
qed

text \<open>
  C1 fails on the code. The minimal configuration on an empty working directory, with the
  first \<open>npm install\<close> exiting with status 1: \<open>generate\<close> fails with the installation
  error and rolls back without a failed deletion, and afterwards the root directory
  \<open>/w/demo\<close> exists and is not empty: it holds \<open>public\<close> and \<open>src\<close>. These two and the
  root itself were made by the recursive \<open>mkdirSync\<close> on the way to the first directories
  below them, and only the directory asked for is pushed on the ledger.
\<close>

theorem C1_install_failure_leaves_root:
  "fst (generate (\<lambda>d a. [StderrData ''boom'', Close 1]) (\<lambda>d. True) demo emptyDisk)
     = Inl (PackageInstallationFailed ''boom'')
   \<and> last (logs (snd (generate (\<lambda>d a. [StderrData ''boom'', Close 1]) (\<lambda>d. True) demo emptyDisk)))
       = (SUCCESS, RollbackCompletedSuccessfully)
   \<and> existsSync (snd (generate (\<lambda>d a. [StderrData ''boom'', Close 1]) (\<lambda>d. True) demo emptyDisk))
       ''/w/demo''
   \<and> readdirSync ''/w/demo''
        (snd (generate (\<lambda>d a. [StderrData ''boom'', Close 1]) (\<lambda>d. True) demo emptyDisk))
       = Inr [[''w'', ''demo'', ''public''], [''w'', ''demo'', ''src'']]
   \<and> tree (snd (generate (\<lambda>d a. [StderrData ''boom'', Close 1]) (\<lambda>d. True) demo emptyDisk))
       = [([''w'', ''demo'', ''public''], Dir), ([''w'', ''demo'', ''src''], Dir),
          ([''w'', ''demo''], Dir), ([''w''], Dir)]"
proof -
  let ?npm = "\<lambda>(d::string) (a::string list). [StderrData ''boom'', Close 1]"
  let ?git = "\<lambda>d::string. True"
  define s1 where "s1 = snd (createStructure demo (logger INFO StartingProjectGeneration emptyDisk))"
  define s2 where "s2 = snd (generateFiles demo s1)"
  define s3 where "s3 = snd (installDependencies ?npm demo s2)"
  define s4 where "s4 = rollback (logger ERROR ProjectGenerationFailed s3)"
  have "fst (createStructure demo (logger INFO StartingProjectGeneration emptyDisk)) = Inr ()"
    by code_simp
  then have e1: "createStructure demo (logger INFO StartingProjectGeneration emptyDisk) = (Inr (), s1)"
    unfolding s1_def by (metis prod.collapse)
  have "fst (generateFiles demo s1) = Inr ()" unfolding s1_def by code_simp
  then have e2: "generateFiles demo s1 = (Inr (), s2)"
    unfolding s2_def by (metis prod.collapse)
  have "fst (installDependencies ?npm demo s2) = Inl (PackageInstallationFailed ''boom'')"
    unfolding s2_def s1_def by code_simp
  then have e3: "installDependencies ?npm demo s2 = (Inl (PackageInstallationFailed ''boom''), s3)"
    unfolding s3_def by (metis prod.collapse)
  have t: "tree s4
       = [([''w'', ''demo'', ''public''], Dir), ([''w'', ''demo'', ''src''], Dir),
          ([''w'', ''demo''], Dir), ([''w''], Dir)]"
    unfolding s4_def s3_def s2_def s1_def by code_simp
  have l: "last (logs s4) = (SUCCESS, RollbackCompletedSuccessfully)"
    unfolding s4_def s3_def s2_def s1_def by code_simp
  have c: "cwd s4 = ''/w''"
    unfolding s4_def s3_def s2_def s1_def by code_simp
  have x: "existsSync s4 ''/w/demo''"
    using t c by (simp add: existsSync_def lstat_def lookup_def resolve_def)
  have r: "readdirSync ''/w/demo'' s4 = Inr [[''w'', ''demo'', ''public''], [''w'', ''demo'', ''src'']]"
    using t c by (simp add: readdirSync_def lstat_def lookup_def resolve_def entries_def)
  from generate_install_failure [OF e1 e2 e3, of ?git] have "generate ?npm ?git demo emptyDisk
      = (Inl (PackageInstallationFailed ''boom''), s4)"
    by (simp add: s4_def)
  with t l x r show ?thesis by simp
qed

end
